theory Spec2Isabelle
  imports Main "HOL-Library.Word"
begin

unbundle bit_operations_syntax

section \<open>Bytes, memory and the C integer types\<close>

text \<open>
  The binding (\<^verbatim>\<open>binding.c\<close>) works on two flat byte buffers: the typed array handed in
  by the caller and one block obtained from \<^verbatim>\<open>malloc\<close>. A buffer is a list of bytes and
  a pointer into it is an index. Dereferencing an index outside the buffer is undefined
  behaviour in C; the model reports it as the outcome \<open>UndefinedBehaviour\<close> instead of
  returning an unspecified list element.

  \<^verbatim>\<open>uint16_t\<close> and \<open>uint32_t\<close> are words, whose arithmetic wraps as C's unsigned
  arithmetic does. \<^verbatim>\<open>int32_t\<close> and \<open>int64_t\<close> values are kept as words where
  they are stored and read with \<open>sint\<close> where C computes with them; signed arithmetic
  that leaves the range of its type is undefined behaviour and is reported as such.
  \<^verbatim>\<open>size_t\<close> has 64 bits.
\<close>

type_synonym byte = "8 word"

definition int32_ok :: "int \<Rightarrow> bool" where
  "int32_ok i \<longleftrightarrow> - (2 ^ 31) \<le> i \<and> i < 2 ^ 31"

definition int64_ok :: "int \<Rightarrow> bool" where
  "int64_ok i \<longleftrightarrow> - (2 ^ 63) \<le> i \<and> i < 2 ^ 63"

text \<open>The conversion \<^verbatim>\<open>(size_t) i\<close> of a signed value.\<close>

definition size_t_of_int :: "int \<Rightarrow> nat" where
  "size_t_of_int i = nat (i mod 2 ^ 64)"

text \<open>C's integer division truncates towards zero.\<close>

definition c_div :: "int \<Rightarrow> int \<Rightarrow> int" where
  "c_div a b = sgn a * sgn b * (\<bar>a\<bar> div \<bar>b\<bar>)"

subsection \<open>Little-endian loads and stores\<close>

text \<open>
  The headers are packed structs laid over the buffer. On the little-endian hosts the
  module is built for, a field access is a little-endian load or store at the field's
  offset.
\<close>

definition read_u16 :: "byte list \<Rightarrow> nat \<Rightarrow> 16 word" where
  "read_u16 m a = ucast (m ! a) OR push_bit 8 (ucast (m ! (a + 1)))"

definition read_u32 :: "byte list \<Rightarrow> nat \<Rightarrow> 32 word" where
  "read_u32 m a =
     ucast (m ! a) OR push_bit 8 (ucast (m ! (a + 1))) OR
     push_bit 16 (ucast (m ! (a + 2))) OR push_bit 24 (ucast (m ! (a + 3)))"

definition store_u16 :: "nat \<Rightarrow> 16 word \<Rightarrow> byte list \<Rightarrow> byte list" where
  "store_u16 a v m = m[a := ucast v, a + 1 := ucast (drop_bit 8 v)]"

definition store_u32 :: "nat \<Rightarrow> 32 word \<Rightarrow> byte list \<Rightarrow> byte list" where
  "store_u32 a v m =
     m[a := ucast v, a + 1 := ucast (drop_bit 8 v),
       a + 2 := ucast (drop_bit 16 v), a + 3 := ucast (drop_bit 24 v)]"

subsection \<open>The allocator\<close>

text \<open>
  \<^verbatim>\<open>malloc\<close> belongs to the environment: whether a request is granted is the oracle
  \<open>can_alloc\<close>, and the block it returns holds indeterminate bytes, \<open>junk\<close>. No
  implementation grants a request above \<^verbatim>\<open>PTRDIFF_MAX\<close>, which is \<open>2 ^ 63 - 1\<close>.
\<close>

record allocator =
  can_alloc :: "nat \<Rightarrow> bool"
  junk :: "nat \<Rightarrow> byte"

definition malloc :: "allocator \<Rightarrow> nat \<Rightarrow> byte list option" where
  "malloc env n = (if n < 2 ^ 63 \<and> can_alloc env n then Some (map (junk env) [0..<n]) else None)"

definition memset :: "byte list \<Rightarrow> byte \<Rightarrow> nat \<Rightarrow> byte list" where
  "memset m c n = map (\<lambda>b. c) (take n m) @ drop n m"

section \<open>Data model\<close>

text \<open>The two packed header structs of \<^verbatim>\<open>binding.c\<close>.\<close>

record bmp_file_header =
  fh_magic :: "16 word"
  fh_file_size :: "32 word"
  fh_reserved1 :: "16 word"
  fh_reserved2 :: "16 word"
  fh_data_offset :: "32 word"

record bmp_dib_header =
  dib_header_size :: "32 word"
  dib_width :: "32 word"
  dib_height :: "32 word"
  dib_planes :: "16 word"
  dib_bpp :: "16 word"
  dib_compression :: "32 word"
  dib_image_size :: "32 word"
  dib_x_pixels_per_m :: "32 word"
  dib_y_pixels_per_m :: "32 word"
  dib_colors_used :: "32 word"
  dib_colors_important :: "32 word"

text \<open>\<^verbatim>\<open>(bmp_file_header_t *) p\<close> and \<^verbatim>\<open>(bmp_dib_header_t *) p\<close>: the fields at their packed offsets.\<close>

definition file_header_at :: "byte list \<Rightarrow> nat \<Rightarrow> bmp_file_header" where
  "file_header_at m p =
     \<lparr>fh_magic = read_u16 m p, fh_file_size = read_u32 m (p + 2),
      fh_reserved1 = read_u16 m (p + 6), fh_reserved2 = read_u16 m (p + 8),
      fh_data_offset = read_u32 m (p + 10)\<rparr>"

definition dib_header_at :: "byte list \<Rightarrow> nat \<Rightarrow> bmp_dib_header" where
  "dib_header_at m p =
     \<lparr>dib_header_size = read_u32 m p, dib_width = read_u32 m (p + 4),
      dib_height = read_u32 m (p + 8), dib_planes = read_u16 m (p + 12),
      dib_bpp = read_u16 m (p + 14), dib_compression = read_u32 m (p + 16),
      dib_image_size = read_u32 m (p + 20), dib_x_pixels_per_m = read_u32 m (p + 24),
      dib_y_pixels_per_m = read_u32 m (p + 28), dib_colors_used = read_u32 m (p + 32),
      dib_colors_important = read_u32 m (p + 36)\<rparr>"

text \<open>
  The JavaScript object \<^verbatim>\<open>{width, height, data}\<close> that decode returns and encode
  takes; the binding reads and writes the two numbers as \<^verbatim>\<open>int64_t\<close>.
\<close>

record image =
  img_width :: "64 word"
  img_height :: "64 word"
  img_data :: "byte list"

text \<open>
  The errors the binding throws, named as in the specification, and the outcome of a run
  that leaves defined behaviour (which is not a thrown error).
\<close>

datatype error =
    TooSmall
  | BadMagic
  | UnsupportedHeader
  | UnsupportedCompression
  | UnsupportedBitDepth
  | TruncatedData
  | AllocationFailure
  | BufferTooSmall
  | NotSupported
  | UndefinedBehaviour

text \<open>The message each thrown error carries.\<close>

fun message :: "error \<Rightarrow> string" where
  "message TooSmall = ''Invalid BMP: file too small''"
| "message BadMagic = ''Invalid BMP: wrong magic number''"
| "message UnsupportedHeader = ''Unsupported BMP: only BITMAPINFOHEADER supported''"
| "message UnsupportedCompression = ''Unsupported BMP: only uncompressed format supported''"
| "message UnsupportedBitDepth = ''Unsupported BMP: only 24-bit and 32-bit formats supported''"
| "message TruncatedData = ''Invalid BMP: pixel data exceeds file size''"
| "message AllocationFailure = ''Memory allocation failed''"
| "message BufferTooSmall = ''Invalid RGBA: data buffer too small''"
| "message NotSupported = ''BMP format does not support animation''"
| "message UndefinedBehaviour = []"

section \<open>Decoding\<close>

text \<open>
  The inner loop of \<^verbatim>\<open>bare_bmp_decode\<close>: pixel \<open>x\<close> of one row, with \<open>src\<close> and \<open>dst\<close>
  the two running pointers. \<open>None\<close> is an access outside a buffer.
\<close>

function decode_row ::
  "byte list \<Rightarrow> 16 word \<Rightarrow> nat \<Rightarrow> nat \<Rightarrow> nat \<Rightarrow> nat \<Rightarrow> nat \<Rightarrow> byte list \<Rightarrow> byte list option" where
  "decode_row bmp_data bpp bytes_per_pixel width x src dst rgba_data =
     (if x < width then
        if src + 2 < length bmp_data \<and> (bpp = 32 \<longrightarrow> src + 3 < length bmp_data) \<and>
           dst + 3 < length rgba_data
        then decode_row bmp_data bpp bytes_per_pixel width (Suc x) (src + bytes_per_pixel) (dst + 4)
               (rgba_data[dst := bmp_data ! (src + 2),
                          dst + 1 := bmp_data ! (src + 1),
                          dst + 2 := bmp_data ! src,
                          dst + 3 := (if bpp = 32 then bmp_data ! (src + 3) else 0xFF)])
        else None
      else Some rgba_data)"
  by pat_completeness auto
termination
  by (relation "measure (\<lambda>(bmp_data, bpp, bytes_per_pixel, width, x, src, dst, rgba_data). width - x)") auto

declare decode_row.simps [simp del]

text \<open>
  The outer loop: output row \<open>y\<close>. The product \<^verbatim>\<open>src_row * row_size\<close> is unsigned 32-bit
  arithmetic, \<^verbatim>\<open>y * width * 4\<close> is signed and cannot overflow once
  \<^verbatim>\<open>width * abs_height * 4\<close> has not. The loop counters are never negative, so they
  are natural numbers; a negative \<^verbatim>\<open>width\<close> or \<^verbatim>\<open>abs_height\<close> arrives here as \<open>0\<close>,
  for which the C loops do not run either.
\<close>

function decode_rows ::
  "byte list \<Rightarrow> nat \<Rightarrow> 32 word \<Rightarrow> nat \<Rightarrow> nat \<Rightarrow> bool \<Rightarrow> 16 word \<Rightarrow> nat \<Rightarrow> nat \<Rightarrow> byte list
     \<Rightarrow> byte list option" where
  "decode_rows bmp_data pixel_data row_size width abs_height top_down bpp bytes_per_pixel y rgba_data =
     (if y < abs_height then
        let src_row = (if top_down then y else abs_height - 1 - y);
            src = pixel_data + unat (of_nat src_row * row_size);
            dst = y * width * 4
        in case decode_row bmp_data bpp bytes_per_pixel width 0 src dst rgba_data of
             None \<Rightarrow> None
           | Some rgba_data' \<Rightarrow>
               decode_rows bmp_data pixel_data row_size width abs_height top_down bpp bytes_per_pixel
                 (Suc y) rgba_data'
      else Some rgba_data)"
  by pat_completeness auto
termination
  by (relation "measure (\<lambda>(bmp_data, pixel_data, row_size, width, abs_height, top_down, bpp,
         bytes_per_pixel, y, rgba_data). abs_height - y)") auto

declare decode_rows.simps [simp del]

text \<open>
  Lines 97 to 169 of \<^verbatim>\<open>bare_bmp_decode\<close>: the geometry, the extent check, the allocation,
  the conversion and the result object. \<^verbatim>\<open>-height\<close> overflows for the least
  \<^verbatim>\<open>int32_t\<close>, and \<^verbatim>\<open>width * abs_height * 4\<close> overflows when the product leaves
  \<^verbatim>\<open>int32_t\<close>. Both are undefined behaviour in C and the model stops there with
  \<open>UndefinedBehaviour\<close>. A compiled binding in which signed arithmetic wraps goes on
  instead and can return an object, with a negative height or with a buffer that does
  not have \<open>width * height * 4\<close> bytes. The theorems on the dimensions of a decoded image
  and on the round trip therefore name the two conditions (the height field is not the
  least \<^verbatim>\<open>int32_t\<close>, and \<open>width * |height| * 4\<close> lies in the range of \<^verbatim>\<open>int32_t\<close>) as
  hypotheses of their own.
\<close>

definition decode_pixels ::
  "allocator \<Rightarrow> byte list \<Rightarrow> bmp_file_header \<Rightarrow> bmp_dib_header \<Rightarrow> error + image" where
  "decode_pixels env bmp_data file_header dib_header =
     (let width = dib_width dib_header;
          height = dib_height dib_header
      in if sint height = - (2 ^ 31) then Inl UndefinedBehaviour
         else
           let abs_height = (if sint height < 0 then - height else height);
               top_down = (sint height < 0);
               bpp = dib_bpp dib_header;
               bytes_per_pixel = (ucast (bpp div 8) :: 32 word);
               row_size = ((width * bytes_per_pixel + 3) div 4) * 4
           in if length bmp_data < unat (fh_data_offset file_header + row_size * abs_height)
              then Inl TruncatedData
              else if \<not> (int32_ok (sint width * sint abs_height) \<and>
                         int32_ok (sint width * sint abs_height * 4))
              then Inl UndefinedBehaviour
              else
                case malloc env (size_t_of_int (sint width * sint abs_height * 4)) of
                  None \<Rightarrow> Inl AllocationFailure
                | Some rgba_data \<Rightarrow>
                    (case decode_rows bmp_data (unat (fh_data_offset file_header)) row_size
                            (nat (sint width)) (nat (sint abs_height)) top_down bpp
                            (unat bytes_per_pixel) 0 rgba_data of
                       None \<Rightarrow> Inl UndefinedBehaviour
                     | Some rgba \<Rightarrow>
                         Inr \<lparr>img_width = scast width, img_height = scast abs_height,
                              img_data = rgba\<rparr>))"

text \<open>\<^verbatim>\<open>bare_bmp_decode\<close>: the five header checks, in the order of the source, then the rest.\<close>

definition bare_bmp_decode :: "allocator \<Rightarrow> byte list \<Rightarrow> error + image" where
  "bare_bmp_decode env bmp_data =
     (if length bmp_data < 14 + 40 then Inl TooSmall
      else
        let file_header = file_header_at bmp_data 0;
            dib_header = dib_header_at bmp_data 14
        in if fh_magic file_header \<noteq> 0x4D42 then Inl BadMagic
           else if dib_header_size dib_header \<noteq> 40 then Inl UnsupportedHeader
           else if dib_compression dib_header \<noteq> 0 then Inl UnsupportedCompression
           else if dib_bpp dib_header \<noteq> 24 \<and> dib_bpp dib_header \<noteq> 32 then Inl UnsupportedBitDepth
           else decode_pixels env bmp_data file_header dib_header)"

section \<open>Encoding\<close>

text \<open>Storing a header struct through a pointer: one store per field, in the order of the source.\<close>

definition store_file_header :: "nat \<Rightarrow> bmp_file_header \<Rightarrow> byte list \<Rightarrow> byte list" where
  "store_file_header p h m =
     store_u32 (p + 10) (fh_data_offset h)
       (store_u16 (p + 8) (fh_reserved2 h)
         (store_u16 (p + 6) (fh_reserved1 h)
           (store_u32 (p + 2) (fh_file_size h)
             (store_u16 p (fh_magic h) m))))"

definition store_dib_header :: "nat \<Rightarrow> bmp_dib_header \<Rightarrow> byte list \<Rightarrow> byte list" where
  "store_dib_header p h m =
     store_u32 (p + 36) (dib_colors_important h)
       (store_u32 (p + 32) (dib_colors_used h)
         (store_u32 (p + 28) (dib_y_pixels_per_m h)
           (store_u32 (p + 24) (dib_x_pixels_per_m h)
             (store_u32 (p + 20) (dib_image_size h)
               (store_u32 (p + 16) (dib_compression h)
                 (store_u16 (p + 14) (dib_bpp h)
                   (store_u16 (p + 12) (dib_planes h)
                     (store_u32 (p + 8) (dib_height h)
                       (store_u32 (p + 4) (dib_width h)
                         (store_u32 p (dib_header_size h) m))))))))))"

text \<open>
  The inner loop of \<^verbatim>\<open>bare_bmp_encode\<close>. Its counter is an \<^verbatim>\<open>int32_t\<close> compared with
  the \<^verbatim>\<open>int64_t\<close> width, so \<^verbatim>\<open>x++\<close> overflows once \<open>x\<close> is the greatest
  \<^verbatim>\<open>int32_t\<close>.
\<close>

function encode_row ::
  "byte list \<Rightarrow> int \<Rightarrow> nat \<Rightarrow> nat \<Rightarrow> nat \<Rightarrow> byte list \<Rightarrow> byte list option" where
  "encode_row rgba_data width x src dst bmp_data =
     (if int x < width then
        if src + 2 < length rgba_data \<and> dst + 2 < length bmp_data \<and> x < 2 ^ 31 - 1
        then encode_row rgba_data width (Suc x) (src + 4) (dst + 3)
               (bmp_data[dst := rgba_data ! (src + 2),
                         dst + 1 := rgba_data ! (src + 1),
                         dst + 2 := rgba_data ! src])
        else None
      else Some bmp_data)"
  by pat_completeness auto
termination
  by (relation "measure (\<lambda>(rgba_data, width, x, src, dst, bmp_data). nat (width - int x))") auto

declare encode_row.simps [simp del]

text \<open>
  The outer loop. \<^verbatim>\<open>dst_row\<close> is the \<^verbatim>\<open>int64_t\<close> value \<^verbatim>\<open>height - 1 - y\<close> cut to 32
  bits, and \<^verbatim>\<open>dst_row * row_size\<close> is unsigned 32-bit arithmetic. \<^verbatim>\<open>y * width * 4\<close> is
  \<^verbatim>\<open>int64_t\<close> arithmetic and stays in range because \<^verbatim>\<open>width * height * 4\<close> did; it is
  negative only for a negative width, for which the inner loop does not run.
\<close>

function encode_rows ::
  "byte list \<Rightarrow> nat \<Rightarrow> 32 word \<Rightarrow> int \<Rightarrow> int \<Rightarrow> nat \<Rightarrow> byte list \<Rightarrow> byte list option" where
  "encode_rows rgba_data pixel_data row_size width height y bmp_data =
     (if int y < height then
        let dst_row = (word_of_int (height - 1 - int y) :: 32 word);
            src = nat (int y * width * 4);
            dst = pixel_data + unat (dst_row * row_size)
        in case encode_row rgba_data width 0 src dst bmp_data of
             None \<Rightarrow> None
           | Some bmp_data' \<Rightarrow>
               if y < 2 ^ 31 - 1
               then encode_rows rgba_data pixel_data row_size width height (Suc y) bmp_data'
               else None
      else Some bmp_data)"
  by pat_completeness auto
termination
  by (relation "measure (\<lambda>(rgba_data, pixel_data, row_size, width, height, y, bmp_data).
         nat (height - int y))") auto

declare encode_rows.simps [simp del]

text \<open>
  Lines 222 to 286 of \<^verbatim>\<open>bare_bmp_encode\<close>. \<^verbatim>\<open>row_size\<close> is computed in \<^verbatim>\<open>int64_t\<close>
  (the \<^verbatim>\<open>uint32_t\<close> operand is converted) and cut to 32 bits, and so is
  \<^verbatim>\<open>pixel_data_size\<close>; \<^verbatim>\<open>file_size\<close> is a \<^verbatim>\<open>size_t\<close> sum cut to 32 bits. The
  headers are stored into the first 54 bytes of the block, whatever its size.
\<close>

definition encode_pixels :: "allocator \<Rightarrow> int \<Rightarrow> int \<Rightarrow> byte list \<Rightarrow> error + byte list" where
  "encode_pixels env width height rgba_data =
     (let bytes_per_pixel = 3
      in if \<not> (int64_ok (width * bytes_per_pixel) \<and> int64_ok (width * bytes_per_pixel + 3))
         then Inl UndefinedBehaviour
         else
           let row_size = (word_of_int (c_div (width * bytes_per_pixel + 3) 4 * 4) :: 32 word)
           in if \<not> int64_ok (uint row_size * height) then Inl UndefinedBehaviour
              else
                let pixel_data_size = (word_of_int (uint row_size * height) :: 32 word);
                    file_size = 14 + 40 + pixel_data_size
                in case malloc env (unat file_size) of
                     None \<Rightarrow> Inl AllocationFailure
                   | Some block \<Rightarrow>
                       let bmp_data = memset block 0 (unat file_size)
                       in if length bmp_data < 14 + 40 then Inl UndefinedBehaviour
                          else
                            let file_header =
                                  \<lparr>fh_magic = 0x4D42, fh_file_size = file_size,
                                   fh_reserved1 = 0, fh_reserved2 = 0, fh_data_offset = 14 + 40\<rparr>;
                                bmp_data = store_file_header 0 file_header bmp_data;
                                dib_header =
                                  \<lparr>dib_header_size = 40, dib_width = word_of_int width,
                                   dib_height = word_of_int height, dib_planes = 1, dib_bpp = 24,
                                   dib_compression = 0, dib_image_size = pixel_data_size,
                                   dib_x_pixels_per_m = 2835, dib_y_pixels_per_m = 2835,
                                   dib_colors_used = 0, dib_colors_important = 0\<rparr>;
                                bmp_data = store_dib_header 14 dib_header bmp_data;
                                pixel_data = unat (fh_data_offset file_header)
                            in (case encode_rows rgba_data pixel_data row_size width height 0
                                       bmp_data of
                                  None \<Rightarrow> Inl UndefinedBehaviour
                                | Some bmp \<Rightarrow> Inr bmp))"

text \<open>
  \<^verbatim>\<open>bare_bmp_encode\<close>: the three properties of the argument, the check of the buffer
  length against \<^verbatim>\<open>(size_t)(width * height * 4)\<close>, then the rest.
\<close>

definition bare_bmp_encode :: "allocator \<Rightarrow> image \<Rightarrow> error + byte list" where
  "bare_bmp_encode env rgba_obj =
     (let width = sint (img_width rgba_obj);
          height = sint (img_height rgba_obj);
          rgba_data = img_data rgba_obj;
          rgba_len = length rgba_data
      in if \<not> (int64_ok (width * height) \<and> int64_ok (width * height * 4))
         then Inl UndefinedBehaviour
         else if rgba_len < size_t_of_int (width * height * 4) then Inl BufferTooSmall
         else encode_pixels env width height rgba_data)"

section \<open>Animated encoding\<close>

text \<open>\<^verbatim>\<open>bare_bmp_encode_animated\<close> throws whatever the call's arguments are.\<close>

definition bare_bmp_encode_animated :: "'a list \<Rightarrow> error + byte list" where
  "bare_bmp_encode_animated argv = Inl NotSupported"

section \<open>Notions of the specification\<close>

text \<open>
  The row stride of the specification: for \<open>n\<close> bytes per pixel and width \<open>w\<close>,
  \<open>ceil (w * n / 4) * 4\<close>, in exact arithmetic.
\<close>

definition stride :: "nat \<Rightarrow> nat \<Rightarrow> nat" where
  "stride w n = (w * n + 3) div 4 * 4"

text \<open>
  The fields of a BMP file that the decoder uses, by their offsets as the interface
  section of the specification lists them: the data offset, the signed width and height,
  and the bits per pixel.
\<close>

definition bmp_data_offset :: "byte list \<Rightarrow> nat" where
  "bmp_data_offset bs = unat (read_u32 bs 10)"

definition bmp_width :: "byte list \<Rightarrow> int" where
  "bmp_width bs = sint (read_u32 bs 18)"

definition bmp_height :: "byte list \<Rightarrow> int" where
  "bmp_height bs = sint (read_u32 bs 22)"

definition bmp_bpp :: "byte list \<Rightarrow> nat" where
  "bmp_bpp bs = unat (read_u16 bs 28)"

text \<open>
  The source row that output row \<open>y\<close> is taken from: \<open>y\<close> for a top-down file (negative
  height), \<open>abs_height - 1 - y\<close> otherwise. Pixel \<open>x\<close> of source row \<open>r\<close> starts at the
  data offset plus \<open>r\<close> strides plus \<open>x\<close> pixels.
\<close>

definition src_row :: "int \<Rightarrow> nat \<Rightarrow> nat" where
  "src_row h y = (if h < 0 then y else nat \<bar>h\<bar> - 1 - y)"

definition pixel_addr :: "byte list \<Rightarrow> nat \<Rightarrow> nat \<Rightarrow> nat" where
  "pixel_addr bs r x =
     bmp_data_offset bs + r * stride (nat (bmp_width bs)) (bmp_bpp bs div 8) +
     x * (bmp_bpp bs div 8)"

text \<open>
  The conversion of one row, pixel by pixel: B, G, R to R, G, B, 255 for 24 bits and
  B, G, R, A to R, G, B, A for 32 bits. Source row \<open>r\<close> of a file is the \<open>width\<close> pixels
  that start \<open>r\<close> strides after the data offset; output row \<open>y\<close> of an image is its
  \<open>y\<close>-th run of \<open>4 * width\<close> bytes.
\<close>

fun bgr_to_rgba :: "byte list \<Rightarrow> byte list" where
  "bgr_to_rgba (b # g # r # rest) = r # g # b # 0xFF # bgr_to_rgba rest"
| "bgr_to_rgba _ = []"

fun bgra_to_rgba :: "byte list \<Rightarrow> byte list" where
  "bgra_to_rgba (b # g # r # a # rest) = r # g # b # a # bgra_to_rgba rest"
| "bgra_to_rgba _ = []"

definition source_row :: "byte list \<Rightarrow> nat \<Rightarrow> byte list" where
  "source_row bs r =
     take (nat (bmp_width bs) * (bmp_bpp bs div 8))
       (drop (bmp_data_offset bs + r * stride (nat (bmp_width bs)) (bmp_bpp bs div 8)) bs)"

definition output_row :: "image \<Rightarrow> nat \<Rightarrow> byte list" where
  "output_row img y =
     take (4 * nat (sint (img_width img))) (drop (y * (4 * nat (sint (img_width img)))) (img_data img))"

text \<open>
  What a 24-bit file keeps of an RGBA buffer: the R, G and B bytes of every pixel, with
  the alpha byte replaced by 255.
\<close>

fun opaque :: "byte list \<Rightarrow> byte list" where
  "opaque (r # g # b # a # rest) = r # g # b # 0xFF # opaque rest"
| "opaque xs = xs"

section \<open>Fixtures\<close>

text \<open>
  An allocator that grants every request it may, and a BMP file built as the repository's
  test builds one: a zeroed 54-byte header with the fields stored at their offsets,
  followed by the pixel bytes.
\<close>

definition env0 :: allocator where "env0 = \<lparr>can_alloc = (\<lambda>n. True), junk = (\<lambda>i. 0xAA)\<rparr>"

definition bmp_file :: "32 word \<Rightarrow> 32 word \<Rightarrow> 32 word \<Rightarrow> 16 word \<Rightarrow> byte list \<Rightarrow> byte list" where
  "bmp_file data_offset width height bpp pixels =
     store_dib_header 14
       \<lparr>dib_header_size = 40, dib_width = width, dib_height = height, dib_planes = 1,
        dib_bpp = bpp, dib_compression = 0, dib_image_size = 0, dib_x_pixels_per_m = 0,
        dib_y_pixels_per_m = 0, dib_colors_used = 0, dib_colors_important = 0\<rparr>
       (store_file_header 0
          \<lparr>fh_magic = 0x4D42, fh_file_size = of_nat (54 + length pixels), fh_reserved1 = 0,
           fh_reserved2 = 0, fh_data_offset = data_offset\<rparr>
          (map (\<lambda>i. 0) [0..<54])) @ pixels"

section \<open>Facts about loads and stores\<close>

lemma bit_byte_high [simp]: "\<not> bit (b :: byte) (8 + n)"
  by (auto dest: bit_imp_le_length)

lemma ucast_read_u16_lo: "ucast (read_u16 m a) = m ! a"
  unfolding read_u16_def by (rule bit_word_eqI) (auto simp add: bit_simps)

lemma ucast_read_u16_hi: "ucast (drop_bit 8 (read_u16 m a)) = m ! (a + 1)"
  unfolding read_u16_def by (rule bit_word_eqI) (auto simp add: bit_simps)

lemma read_u16_magic:
  "read_u16 m 0 = 0x4D42 \<longleftrightarrow> m ! 0 = 0x42 \<and> m ! 1 = 0x4D"
proof
  assume eq: "read_u16 m 0 = 0x4D42"
  from ucast_read_u16_lo [of m 0] ucast_read_u16_hi [of m 0]
  show "m ! 0 = 0x42 \<and> m ! 1 = 0x4D"
    unfolding eq by simp
next
  assume "m ! 0 = 0x42 \<and> m ! 1 = 0x4D"
  then show "read_u16 m 0 = 0x4D42"
    by (simp add: read_u16_def)
qed

lemma length_store [simp]:
  "length (store_u16 a v m) = length m"
  "length (store_u32 a w m) = length m"
  by (simp_all add: store_u16_def store_u32_def)

lemma nth_store_u16_other:
  "i < a \<or> a + 2 \<le> i \<Longrightarrow> store_u16 a v m ! i = m ! i"
  by (auto simp add: store_u16_def)

lemma nth_store_u32_other:
  "i < a \<or> a + 4 \<le> i \<Longrightarrow> store_u32 a v m ! i = m ! i"
  by (auto simp add: store_u32_def)

lemma read_u16_cong:
  "m' ! a = m ! a \<Longrightarrow> m' ! (a + 1) = m ! (a + 1) \<Longrightarrow> read_u16 m' a = read_u16 m a"
  by (simp add: read_u16_def)

lemma read_u32_cong:
  "m' ! a = m ! a \<Longrightarrow> m' ! (a + 1) = m ! (a + 1) \<Longrightarrow> m' ! (a + 2) = m ! (a + 2) \<Longrightarrow>
   m' ! (a + 3) = m ! (a + 3) \<Longrightarrow> read_u32 m' a = read_u32 m a"
  by (simp add: read_u32_def)

lemma read_store_u16: "a + 1 < length m \<Longrightarrow> read_u16 (store_u16 a v m) a = v"
  unfolding read_u16_def store_u16_def
  apply simp
  apply (rule bit_word_eqI)
  apply (auto simp add: bit_simps not_less)
  done

lemma read_store_u32: "a + 3 < length m \<Longrightarrow> read_u32 (store_u32 a v m) a = v"
  unfolding read_u32_def store_u32_def
  apply simp
  apply (rule bit_word_eqI)
  apply (auto simp add: bit_simps not_less)
  subgoal for n by (cases "24 \<le> n") simp_all
  done

lemma read_u16_store_u16_other:
  "a + 2 \<le> b \<or> b + 2 \<le> a \<Longrightarrow> read_u16 (store_u16 b v m) a = read_u16 m a"
  by (intro read_u16_cong nth_store_u16_other) auto

lemma read_u16_store_u32_other:
  "a + 2 \<le> b \<or> b + 4 \<le> a \<Longrightarrow> read_u16 (store_u32 b v m) a = read_u16 m a"
  by (intro read_u16_cong nth_store_u32_other) auto

lemma read_u32_store_u16_other:
  "a + 4 \<le> b \<or> b + 2 \<le> a \<Longrightarrow> read_u32 (store_u16 b v m) a = read_u32 m a"
  by (intro read_u32_cong nth_store_u16_other) auto

lemma read_u32_store_u32_other:
  "a + 4 \<le> b \<or> b + 4 \<le> a \<Longrightarrow> read_u32 (store_u32 b v m) a = read_u32 m a"
  by (intro read_u32_cong nth_store_u32_other) auto

lemmas read_store_simps = read_store_u16 read_store_u32 read_u16_store_u16_other
  read_u16_store_u32_other read_u32_store_u16_other read_u32_store_u32_other

lemma length_store_header [simp]:
  "length (store_file_header p fh m) = length m"
  "length (store_dib_header p dh m) = length m"
  by (simp_all add: store_file_header_def store_dib_header_def)

lemma nth_store_file_header_other:
  "i < p \<or> p + 14 \<le> i \<Longrightarrow> store_file_header p fh m ! i = m ! i"
  by (auto simp add: store_file_header_def nth_store_u16_other nth_store_u32_other)

lemma nth_store_dib_header_other:
  "i < p \<or> p + 40 \<le> i \<Longrightarrow> store_dib_header p dh m ! i = m ! i"
  by (auto simp add: store_dib_header_def nth_store_u16_other nth_store_u32_other)

lemma file_header_at_store:
  "p + 14 \<le> length m \<Longrightarrow> file_header_at (store_file_header p fh m) p = fh"
  by (simp add: file_header_at_def store_file_header_def read_store_simps)

lemma dib_header_at_store:
  "p + 40 \<le> length m \<Longrightarrow> dib_header_at (store_dib_header p dh m) p = dh"
  by (simp add: dib_header_at_def store_dib_header_def read_store_simps)

lemma file_header_at_cong:
  "(\<And>i. i < 14 \<Longrightarrow> m' ! i = m ! i) \<Longrightarrow> file_header_at m' 0 = file_header_at m 0"
  unfolding file_header_at_def by (simp add: read_u16_def read_u32_def)

lemma dib_header_at_cong:
  "(\<And>i. 14 \<le> i \<Longrightarrow> i < 54 \<Longrightarrow> m' ! i = m ! i) \<Longrightarrow>
   dib_header_at m' 14 = dib_header_at m 14"
  unfolding dib_header_at_def by (simp add: read_u16_def read_u32_def)

lemma headers_of_encoded:
  assumes "54 \<le> length m"
    and "\<And>i. i < 54 \<Longrightarrow> m' ! i = store_dib_header 14 dh (store_file_header 0 fh m) ! i"
  shows "file_header_at m' 0 = fh" and "dib_header_at m' 14 = dh"
proof -
  have "file_header_at m' 0 = file_header_at (store_dib_header 14 dh (store_file_header 0 fh m)) 0"
    by (rule file_header_at_cong) (simp add: assms(2))
  also have "\<dots> = file_header_at (store_file_header 0 fh m) 0"
    by (rule file_header_at_cong) (simp add: nth_store_dib_header_other)
  also from assms(1) have "\<dots> = fh" by (intro file_header_at_store) simp
  finally show "file_header_at m' 0 = fh" .
  have "dib_header_at m' 14 = dib_header_at (store_dib_header 14 dh (store_file_header 0 fh m)) 14"
    by (rule dib_header_at_cong) (simp add: assms(2))
  also from assms(1) have "\<dots> = dh" by (intro dib_header_at_store) simp
  finally show "dib_header_at m' 14 = dh" .
qed

lemma bmp_file_headers:
  "file_header_at (bmp_file off w h bpp px) 0 =
     \<lparr>fh_magic = 0x4D42, fh_file_size = of_nat (54 + length px), fh_reserved1 = 0,
      fh_reserved2 = 0, fh_data_offset = off\<rparr>"
  "dib_header_at (bmp_file off w h bpp px) 14 =
     \<lparr>dib_header_size = 40, dib_width = w, dib_height = h, dib_planes = 1,
      dib_bpp = bpp, dib_compression = 0, dib_image_size = 0, dib_x_pixels_per_m = 0,
      dib_y_pixels_per_m = 0, dib_colors_used = 0, dib_colors_important = 0\<rparr>"
  unfolding bmp_file_def
  by (rule headers_of_encoded [where m = "map (\<lambda>i. 0) [0..<54]"]; simp add: nth_append)+

lemma bmp_file_length: "length (bmp_file off w h bpp px) = 54 + length px"
  by (simp add: bmp_file_def)

lemma bmp_file_fields:
  "read_u16 (bmp_file off w h bpp px) 0 = 0x4D42"
  "read_u32 (bmp_file off w h bpp px) 10 = off"
  "read_u32 (bmp_file off w h bpp px) 14 = 40"
  "read_u32 (bmp_file off w h bpp px) 18 = w"
  "read_u32 (bmp_file off w h bpp px) 22 = h"
  "read_u16 (bmp_file off w h bpp px) 28 = bpp"
  "read_u32 (bmp_file off w h bpp px) 30 = 0"
  using bmp_file_headers(1,2) [of off w h bpp px]
  unfolding file_header_at_def dib_header_at_def by simp_all

lemma bmp_file_nth_pixels: "bmp_file off w h bpp px ! (54 + i) = px ! i"
  by (simp add: bmp_file_def nth_append)

lemma bmp_file_geometry:
  "bmp_data_offset (bmp_file off w h bpp px) = unat off"
  "bmp_width (bmp_file off w h bpp px) = sint w"
  "bmp_height (bmp_file off w h bpp px) = sint h"
  "bmp_bpp (bmp_file off w h bpp px) = unat bpp"
  by (simp_all add: bmp_data_offset_def bmp_width_def bmp_height_def bmp_bpp_def bmp_file_fields)

section \<open>Evaluation of the model on concrete inputs\<close>

lemmas eval_defs = bare_bmp_decode_def decode_pixels_def file_header_at_def dib_header_at_def
     read_u16_def read_u32_def Let_def int32_ok_def size_t_of_int_def malloc_def decode_rows.simps decode_row.simps
     bare_bmp_encode_def encode_pixels_def store_file_header_def store_dib_header_def
     store_u16_def store_u32_def memset_def c_div_def int64_ok_def encode_rows.simps encode_row.simps
     upt_conv_Cons

lemma bmp_file_1x1: "bmp_file 54 1 1 24 [0, 0, 255, 0] = 
   [0x42, 0x4D, 58, 0, 0, 0, 0, 0, 0, 0, 54, 0, 0, 0,
           40, 0, 0, 0, 1, 0, 0, 0, 1, 0, 0, 0, 1, 0, 24, 0, 0, 0, 0, 0, 0, 0, 0, 0,
           0, 0, 0, 0, 0, 0, 0, 0, 0, 0, 0, 0, 0, 0, 0, 0,
           0, 0, 255, 0]"
  by (simp add: bmp_file_def eval_defs)

lemma decode_1x1_24:
  "bare_bmp_decode env0 (bmp_file 54 1 1 24 [0, 0, 255, 0]) =
     Inr \<lparr>img_width = 1, img_height = 1, img_data = [255, 0, 0, 255]\<rparr>"
  by (simp add: bmp_file_def eval_defs env0_def)

lemma decode_1x1_32:
  "bare_bmp_decode env0 (bmp_file 54 1 1 32 [10, 20, 30, 128]) =
     Inr \<lparr>img_width = 1, img_height = 1, img_data = [30, 20, 10, 128]\<rparr>"
  by (simp add: bmp_file_def eval_defs env0_def)

lemma decode_2x2_bottom_up:
  "bare_bmp_decode env0 (bmp_file 54 2 2 24 [1, 2, 3, 4, 5, 6, 0, 0, 7, 8, 9, 10, 11, 12, 0, 0]) =
     Inr \<lparr>img_width = 2, img_height = 2,
          img_data = [9, 8, 7, 255, 12, 11, 10, 255, 3, 2, 1, 255, 6, 5, 4, 255]\<rparr>"
  by (simp add: bmp_file_def eval_defs env0_def)

lemma decode_2x2_top_down:
  "bare_bmp_decode env0 (bmp_file 54 2 (- 2) 24 [1, 2, 3, 4, 5, 6, 0, 0, 7, 8, 9, 10, 11, 12, 0, 0]) =
     Inr \<lparr>img_width = 2, img_height = 2,
          img_data = [3, 2, 1, 255, 6, 5, 4, 255, 9, 8, 7, 255, 12, 11, 10, 255]\<rparr>"
  by (simp add: bmp_file_def eval_defs env0_def)

lemma decode_0x0:
  "bare_bmp_decode env0 (bmp_file 54 0 0 24 []) =
     Inr \<lparr>img_width = 0, img_height = 0, img_data = []\<rparr>"
  by (simp add: bmp_file_def eval_defs env0_def)

lemma decode_neg_width:
  "bare_bmp_decode env0 (bmp_file 54 0xFFFFFFFF 0 24 []) =
     Inr \<lparr>img_width = 0xFFFFFFFFFFFFFFFF, img_height = 0, img_data = []\<rparr>"
  by (simp add: bmp_file_def eval_defs env0_def)

lemma decode_offset_0:
  "bare_bmp_decode env0 (bmp_file 0 1 1 24 []) =
     Inr \<lparr>img_width = 1, img_height = 1, img_data = [54, 0x4D, 0x42, 255]\<rparr>"
  by (simp add: bmp_file_def eval_defs env0_def)

lemma decode_wrap:
  "bare_bmp_decode env (bmp_file 54 0x40000000 1 32 []) = Inl UndefinedBehaviour"
  by (simp add: bmp_file_def eval_defs)

lemma decode_no_alloc:
  "bare_bmp_decode \<lparr>can_alloc = (\<lambda>n. False), junk = (\<lambda>i. 0)\<rparr> (bmp_file 54 1 1 24 [0, 0, 255, 0]) =
     Inl AllocationFailure"
  by (simp add: bmp_file_def eval_defs)

lemma decode_1x1_small_allocator:
  "bare_bmp_decode \<lparr>can_alloc = (\<lambda>n. n \<le> 4), junk = (\<lambda>i. 0)\<rparr> (bmp_file 54 1 1 24 [0, 0, 255, 0]) =
     Inr \<lparr>img_width = 1, img_height = 1, img_data = [255, 0, 0, 255]\<rparr>"
  by (simp add: bmp_file_def eval_defs)

lemma encode_1x1_small_allocator:
  "bare_bmp_encode \<lparr>can_alloc = (\<lambda>n. n \<le> 4), junk = (\<lambda>i. 0)\<rparr>
     \<lparr>img_width = 1, img_height = 1, img_data = [255, 0, 0, 255]\<rparr> = Inl AllocationFailure"
  by (simp add: eval_defs)

lemma decode_wrap_offset_0:
  "bare_bmp_decode env (bmp_file 0 0x40000000 1 32 []) = Inl UndefinedBehaviour"
  by (simp add: bmp_file_def eval_defs)

lemma bmp_file_magic:
  "bmp_file off w h bpp px ! 0 = 0x42" "bmp_file off w h bpp px ! 1 = 0x4D"
  using bmp_file_fields(1) [of off w h bpp px] unfolding read_u16_magic by simp_all

lemma encode_1x1:
  "bare_bmp_encode env0 \<lparr>img_width = 1, img_height = 1, img_data = [255, 0, 0, 255]\<rparr> =
     Inr [0x42, 0x4D, 58, 0, 0, 0, 0, 0, 0, 0, 54, 0, 0, 0,
          40, 0, 0, 0, 1, 0, 0, 0, 1, 0, 0, 0, 1, 0, 24, 0, 0, 0, 0, 0, 4, 0, 0, 0,
          0x13, 0x0B, 0, 0, 0x13, 0x0B, 0, 0, 0, 0, 0, 0, 0, 0, 0, 0,
          0, 0, 255, 0]"
  by (simp add: eval_defs env0_def)

lemma encode_huge:
  "bare_bmp_encode env0
     \<lparr>img_width = 65536, img_height = 65536, img_data = replicate 17179869184 0\<rparr> =
   Inl UndefinedBehaviour"
  by (simp add: eval_defs env0_def)

lemma encode_overflow:
  "bare_bmp_encode env \<lparr>img_width = 0x80000000, img_height = 0x80000000, img_data = []\<rparr> =
   Inl UndefinedBehaviour"
  by (simp add: eval_defs)

text \<open>
  The encoder on images with a negative dimension, such as a decoder in which signed
  overflow wraps returns for a header of width \<open>- (2 ^ 30)\<close> and height 2 at 32 bits per
  pixel, and for a header of width 0 and the least 32-bit integer as height: the first is
  refused, the second is encoded with a negative height field.
\<close>

lemma encode_negative_width:
  "bare_bmp_encode env \<lparr>img_width = 0xFFFFFFFFC0000000, img_height = 2, img_data = []\<rparr> =
     Inl BufferTooSmall"
  by (simp add: eval_defs)

lemma encode_negative_height:
  "\<exists>bmp. bare_bmp_encode env0 \<lparr>img_width = 0, img_height = 0xFFFFFFFF80000000, img_data = []\<rparr> =
     Inr bmp \<and> length bmp = 54 \<and> bmp_height bmp = - (2 ^ 31)"
  by (simp add: eval_defs env0_def bmp_height_def)

section \<open>The header checks of the decoder\<close>

lemma decode_pixels_not_header_error:
  "decode_pixels env bs fh dh \<notin>
     {Inl TooSmall, Inl BadMagic, Inl UnsupportedHeader, Inl UnsupportedCompression,
      Inl UnsupportedBitDepth}"
  by (simp add: decode_pixels_def Let_def split: option.splits)

lemma bare_bmp_decode_checks:
  "bare_bmp_decode env bs =
     (if length bs < 54 then Inl TooSmall
      else if read_u16 bs 0 \<noteq> 0x4D42 then Inl BadMagic
      else if read_u32 bs 14 \<noteq> 40 then Inl UnsupportedHeader
      else if read_u32 bs 30 \<noteq> 0 then Inl UnsupportedCompression
      else if read_u16 bs 28 \<noteq> 24 \<and> read_u16 bs 28 \<noteq> 32 then Inl UnsupportedBitDepth
      else decode_pixels env bs (file_header_at bs 0) (dib_header_at bs 14))"
proof -
  have hdr: "fh_magic (file_header_at bs 0) = read_u16 bs 0"
    "dib_header_size (dib_header_at bs 14) = read_u32 bs 14"
    "dib_compression (dib_header_at bs 14) = read_u32 bs 30"
    "dib_bpp (dib_header_at bs 14) = read_u16 bs 28"
    by (simp_all add: file_header_at_def dib_header_at_def)
  show ?thesis
    unfolding bare_bmp_decode_def Let_def hdr by simp
qed

section \<open>Facts about machine arithmetic\<close>

lemma sint_word_of_int_32:
  "- (2 ^ 31) \<le> k \<Longrightarrow> k < 2 ^ 31 \<Longrightarrow> sint (word_of_int k :: 32 word) = k"
  by (simp add: signed_of_int signed_take_bit_int_eq_self)

lemma sint_word_of_int_64:
  "- (2 ^ 63) \<le> k \<Longrightarrow> k < 2 ^ 63 \<Longrightarrow> sint (word_of_int k :: 64 word) = k"
  by (simp add: signed_of_int signed_take_bit_int_eq_self)

lemma sint_32_range: "- (2 ^ 31) \<le> sint (w :: 32 word)" "sint (w :: 32 word) < 2 ^ 31"
  using sint_greater_eq [of w] sint_less [of w] by simp_all

lemma sint_neg_32:
  fixes h :: "32 word"
  assumes "sint h \<noteq> - (2 ^ 31)"
  shows "sint (- h) = - sint h"
proof -
  have "- h = word_of_int (- sint h)" by simp
  moreover from assms sint_32_range [of h] have "- (2 ^ 31) \<le> - sint h" "- sint h < 2 ^ 31"
    by simp_all
  ultimately show ?thesis by (simp only: sint_word_of_int_32)
qed

lemma uint_nonneg_sint_32:
  fixes w :: "32 word"
  assumes "0 \<le> sint w"
  shows "uint w = sint w"
proof -
  have "uint w = uint (word_of_int (sint w) :: 32 word)" by simp
  also have "\<dots> = sint w mod 2 ^ 32" by (simp only: uint_word_of_int) simp
  also from assms sint_32_range(2) [of w] have "\<dots> = sint w" by simp
  finally show ?thesis .
qed

lemma unat_nonneg_sint_32:
  fixes w :: "32 word"
  assumes "0 \<le> sint w"
  shows "unat w = nat (sint w)"
  unfolding uint_nonneg_sint_32 [OF assms, symmetric] by simp

lemma sint_scast_32_64: "sint (scast (w :: 32 word) :: 64 word) = sint w"
  by (rule sint_up_scast) (simp add: is_up)

lemma word_of_int_sint_scast: "(word_of_int (sint (scast (w :: 32 word) :: 64 word)) :: 32 word) = w"
  by (simp add: sint_scast_32_64)

lemma bytes_per_pixel_cases:
  "unat (ucast ((24 :: 16 word) div 8) :: 32 word) = 3"
  "unat (ucast ((32 :: 16 word) div 8) :: 32 word) = 4"
  by simp_all

lemma row_size_exact:
  fixes w n :: "32 word"
  assumes "unat w * unat n + 3 < 2 ^ 32"
  shows "unat ((w * n + 3) div 4 * 4) = stride (unat w) (unat n)"
proof -
  from assms have m: "unat (w * n) = unat w * unat n"
    by (intro unat_mult_lem [THEN iffD1]) simp
  from assms have a: "unat (w * n + 3) = unat w * unat n + 3"
    using unat_add_lem [of "w * n" 3] by (simp add: m)
  have d: "unat ((w * n + 3) div 4) = (unat w * unat n + 3) div 4"
    by (simp add: unat_div a)
  have "(unat w * unat n + 3) div 4 * 4 \<le> unat w * unat n + 3"
    by (rule div_times_less_eq_dividend)
  with assms have "(unat w * unat n + 3) div 4 * 4 < 2 ^ 32"
    by (rule le_less_trans [rotated])
  then have "unat ((w * n + 3) div 4) * unat (4 :: 32 word) < 2 ^ 32"
    unfolding d by simp
  then have "unat ((w * n + 3) div 4 * 4) = unat ((w * n + 3) div 4) * unat (4 :: 32 word)"
    by (intro unat_mult_lem [THEN iffD1]) simp
  then show ?thesis by (simp add: d stride_def)
qed

lemma row_offset_exact:
  fixes rs :: "32 word"
  assumes "r * unat rs < 2 ^ 32"
  shows "unat (of_nat r * rs) = r * unat rs"
proof (cases "unat rs = 0")
  case True
  then have "rs = 0" by (simp add: unat_eq_0)
  then show ?thesis by simp
next
  case False
  then have "r \<le> r * unat rs" by (cases "unat rs") simp_all
  from this assms have "r < 2 ^ 32" by (rule le_less_trans)
  then have "unat (of_nat r :: 32 word) = r" by (simp add: unat_of_nat)
  with assms show ?thesis
    using unat_mult_lem [of "of_nat r :: 32 word" rs] by simp
qed

lemma stride_4: "stride w 4 = 4 * w"
  unfolding stride_def by presburger

lemma stride_3_le: "stride w 3 \<le> 4 * w"
  unfolding stride_def by presburger

lemma stride_ge: "w * n \<le> stride w n"
  unfolding stride_def by presburger


section \<open>The decoding loops\<close>

lemma decode_row_Some:
  assumes "decode_row bmp bpp N width x src dst rgba = Some rgba'"
  shows "length rgba' = length rgba \<and>
    (\<forall>j < width - x.
       src + j * N + 2 < length bmp \<and> (bpp = 32 \<longrightarrow> src + j * N + 3 < length bmp) \<and>
       dst + 4 * j + 3 < length rgba \<and>
       rgba' ! (dst + 4 * j) = bmp ! (src + j * N + 2) \<and>
       rgba' ! (dst + 4 * j + 1) = bmp ! (src + j * N + 1) \<and>
       rgba' ! (dst + 4 * j + 2) = bmp ! (src + j * N) \<and>
       rgba' ! (dst + 4 * j + 3) = (if bpp = 32 then bmp ! (src + j * N + 3) else 0xFF)) \<and>
    (\<forall>i. i < dst \<or> dst + 4 * (width - x) \<le> i \<longrightarrow> rgba' ! i = rgba ! i)"
  using assms
proof (induction "width - x" arbitrary: x src dst rgba)
  case 0
  then show ?case by (simp add: decode_row.simps)
next
  case (Suc n)
  let ?rgba1 = "rgba[dst := bmp ! (src + 2), dst + 1 := bmp ! (src + 1), dst + 2 := bmp ! src,
                     dst + 3 := (if bpp = 32 then bmp ! (src + 3) else 0xFF)]"
  from Suc.hyps(2) have lt: "x < width" and n: "n = width - Suc x" by simp_all
  from Suc.prems lt have
    inb: "src + 2 < length bmp" "bpp = 32 \<longrightarrow> src + 3 < length bmp" "dst + 3 < length rgba"
    and rec: "decode_row bmp bpp N width (Suc x) (src + N) (dst + 4) ?rgba1 = Some rgba'"
    by (simp_all add: decode_row.simps [of bmp bpp N width x] split: if_splits)
  note IH = Suc.hyps(1) [OF n rec]
  from IH have len: "length rgba' = length rgba" by simp
  from IH have keep: "\<And>i. i < dst + 4 \<or> dst + 4 + 4 * (width - Suc x) \<le> i \<Longrightarrow> rgba' ! i = ?rgba1 ! i"
    by blast
  have first: "rgba' ! dst = bmp ! (src + 2)" "rgba' ! (dst + 1) = bmp ! (src + 1)"
    "rgba' ! (dst + 2) = bmp ! src"
    "rgba' ! (dst + 3) = (if bpp = 32 then bmp ! (src + 3) else 0xFF)"
    using inb(3) by (simp_all add: keep)
  have pix: "src + j * N + 2 < length bmp \<and> (bpp = 32 \<longrightarrow> src + j * N + 3 < length bmp) \<and>
       dst + 4 * j + 3 < length rgba \<and>
       rgba' ! (dst + 4 * j) = bmp ! (src + j * N + 2) \<and>
       rgba' ! (dst + 4 * j + 1) = bmp ! (src + j * N + 1) \<and>
       rgba' ! (dst + 4 * j + 2) = bmp ! (src + j * N) \<and>
       rgba' ! (dst + 4 * j + 3) = (if bpp = 32 then bmp ! (src + j * N + 3) else 0xFF)"
    if "j < width - x" for j
  proof (cases j)
    case 0
    with inb first show ?thesis by simp
  next
    case (Suc j')
    with that have "j' < width - Suc x" by simp
    with IH have "src + N + j' * N + 2 < length bmp \<and> (bpp = 32 \<longrightarrow> src + N + j' * N + 3 < length bmp) \<and>
       dst + 4 + 4 * j' + 3 < length ?rgba1 \<and>
       rgba' ! (dst + 4 + 4 * j') = bmp ! (src + N + j' * N + 2) \<and>
       rgba' ! (dst + 4 + 4 * j' + 1) = bmp ! (src + N + j' * N + 1) \<and>
       rgba' ! (dst + 4 + 4 * j' + 2) = bmp ! (src + N + j' * N) \<and>
       rgba' ! (dst + 4 + 4 * j' + 3) = (if bpp = 32 then bmp ! (src + N + j' * N + 3) else 0xFF)"
      by blast
    then show ?thesis
      unfolding Suc by (simp add: algebra_simps)
  qed
  have rest: "rgba' ! i = rgba ! i" if "i < dst \<or> dst + 4 * (width - x) \<le> i" for i
  proof -
    from that lt have "i < dst + 4 \<or> dst + 4 + 4 * (width - Suc x) \<le> i" by auto
    then have "rgba' ! i = ?rgba1 ! i" by (rule keep)
    also from that lt have "?rgba1 ! i = rgba ! i" by auto
    finally show ?thesis .
  qed
  from len pix rest show ?case by blast
qed

lemma decode_row_progress:
  assumes "\<forall>j < width - x.
       src + j * N + 2 < length bmp \<and> (bpp = 32 \<longrightarrow> src + j * N + 3 < length bmp) \<and>
       dst + 4 * j + 3 < length rgba"
  shows "\<exists>rgba'. decode_row bmp bpp N width x src dst rgba = Some rgba'"
  using assms
proof (induction "width - x" arbitrary: x src dst rgba)
  case 0
  then show ?case by (simp add: decode_row.simps)
next
  case (Suc n)
  let ?rgba1 = "rgba[dst := bmp ! (src + 2), dst + 1 := bmp ! (src + 1), dst + 2 := bmp ! src,
                     dst + 3 := (if bpp = 32 then bmp ! (src + 3) else 0xFF)]"
  from Suc.hyps(2) have lt: "x < width" and n: "n = width - Suc x" by simp_all
  from Suc.prems lt have "src + 0 * N + 2 < length bmp \<and> (bpp = 32 \<longrightarrow> src + 0 * N + 3 < length bmp) \<and>
       dst + 4 * 0 + 3 < length rgba"
    by (metis zero_less_diff)
  then have inb: "src + 2 < length bmp" "bpp = 32 \<longrightarrow> src + 3 < length bmp" "dst + 3 < length rgba"
    by simp_all
  have "\<forall>j < width - Suc x.
       src + N + j * N + 2 < length bmp \<and> (bpp = 32 \<longrightarrow> src + N + j * N + 3 < length bmp) \<and>
       dst + 4 + 4 * j + 3 < length ?rgba1"
  proof (intro allI impI)
    fix j assume "j < width - Suc x"
    then have "Suc j < width - x" by simp
    with Suc.prems have "src + Suc j * N + 2 < length bmp \<and> (bpp = 32 \<longrightarrow> src + Suc j * N + 3 < length bmp) \<and>
       dst + 4 * Suc j + 3 < length rgba" by blast
    then show "src + N + j * N + 2 < length bmp \<and> (bpp = 32 \<longrightarrow> src + N + j * N + 3 < length bmp) \<and>
       dst + 4 + 4 * j + 3 < length ?rgba1"
      by (simp add: algebra_simps)
  qed
  from Suc.hyps(1) [OF n this] obtain rgba' where
    "decode_row bmp bpp N width (Suc x) (src + N) (dst + 4) ?rgba1 = Some rgba'" by blast
  with lt inb show ?case
    by (simp add: decode_row.simps [of bmp bpp N width x])
qed

lemma decode_row_SomeD:
  assumes "decode_row bmp bpp N width x src dst rgba = Some rgba'" and "j < width - x"
  shows "src + j * N + 2 < length bmp"
    and "bpp = 32 \<longrightarrow> src + j * N + 3 < length bmp"
    and "dst + 4 * j + 3 < length rgba"
    and "rgba' ! (dst + 4 * j) = bmp ! (src + j * N + 2)"
    and "rgba' ! (dst + 4 * j + 1) = bmp ! (src + j * N + 1)"
    and "rgba' ! (dst + 4 * j + 2) = bmp ! (src + j * N)"
    and "rgba' ! (dst + 4 * j + 3) = (if bpp = 32 then bmp ! (src + j * N + 3) else 0xFF)"
  using decode_row_Some [OF assms(1)] assms(2) by blast+

lemma decode_rows_Some:
  fixes rs :: "32 word"
  defines "s \<equiv> \<lambda>td H r j N pd. pd + unat (of_nat (if td then r else H - 1 - r) * rs) + j * N"
  assumes "decode_rows bmp pd rs width H td bpp N y rgba = Some rgba'"
  shows "length rgba' = length rgba \<and>
    (\<forall>r j. y \<le> r \<and> r < H \<and> j < width \<longrightarrow>
       s td H r j N pd + 2 < length bmp \<and> (bpp = 32 \<longrightarrow> s td H r j N pd + 3 < length bmp) \<and>
       r * width * 4 + 4 * j + 3 < length rgba \<and>
       rgba' ! (r * width * 4 + 4 * j) = bmp ! (s td H r j N pd + 2) \<and>
       rgba' ! (r * width * 4 + 4 * j + 1) = bmp ! (s td H r j N pd + 1) \<and>
       rgba' ! (r * width * 4 + 4 * j + 2) = bmp ! (s td H r j N pd) \<and>
       rgba' ! (r * width * 4 + 4 * j + 3) =
         (if bpp = 32 then bmp ! (s td H r j N pd + 3) else 0xFF)) \<and>
    (\<forall>i. i < y * width * 4 \<or> H * width * 4 \<le> i \<longrightarrow> rgba' ! i = rgba ! i)"
  using assms(2)
proof (induction "H - y" arbitrary: y rgba)
  case 0
  then have "H \<le> y" and eq: "rgba' = rgba" by (simp_all add: decode_rows.simps)
  have pix: "s td H r j N pd + 2 < length bmp \<and> (bpp = 32 \<longrightarrow> s td H r j N pd + 3 < length bmp) \<and>
       r * width * 4 + 4 * j + 3 < length rgba \<and>
       rgba' ! (r * width * 4 + 4 * j) = bmp ! (s td H r j N pd + 2) \<and>
       rgba' ! (r * width * 4 + 4 * j + 1) = bmp ! (s td H r j N pd + 1) \<and>
       rgba' ! (r * width * 4 + 4 * j + 2) = bmp ! (s td H r j N pd) \<and>
       rgba' ! (r * width * 4 + 4 * j + 3) =
         (if bpp = 32 then bmp ! (s td H r j N pd + 3) else 0xFF)"
    if "y \<le> r" "r < H" "j < width" for r j
  proof -
    from that \<open>H \<le> y\<close> have False by simp
    then show ?thesis ..
  qed
  from eq have len: "length rgba' = length rgba" and rest: "\<And>i. rgba' ! i = rgba ! i"
    by simp_all
  from len pix rest show ?case by blast
next
  case (Suc n)
  from Suc.hyps(2) have lt: "y < H" and n: "n = H - Suc y" by simp_all
  let ?src = "pd + unat (of_nat (if td then y else H - 1 - y) * rs)"
  from Suc.prems lt obtain rgba1 where
    row: "decode_row bmp bpp N width 0 ?src (y * width * 4) rgba = Some rgba1"
    and rec: "decode_rows bmp pd rs width H td bpp N (Suc y) rgba1 = Some rgba'"
    by (auto simp add: decode_rows.simps [of bmp pd rs width H td bpp N y] Let_def
        split: option.splits)
  note R = decode_row_Some [OF row]
  note IH = Suc.hyps(1) [OF n rec]
  from R have len1: "length rgba1 = length rgba" by simp
  from IH len1 have len: "length rgba' = length rgba" by simp
  from IH have keep: "\<And>i. i < Suc y * width * 4 \<or> H * width * 4 \<le> i \<Longrightarrow> rgba' ! i = rgba1 ! i"
    by blast
  from R have "\<forall>i. i < y * width * 4 \<or> y * width * 4 + 4 * (width - 0) \<le> i \<longrightarrow> rgba1 ! i = rgba ! i"
    by blast
  then have keep1: "\<And>i. i < y * width * 4 \<or> y * width * 4 + 4 * width \<le> i \<Longrightarrow> rgba1 ! i = rgba ! i"
    by auto
  from lt have "Suc y * width \<le> H * width" by (intro mult_le_mono1) simp
  then have le: "y * width * 4 + 4 * width \<le> H * width * 4" by simp
  have pix: "s td H r j N pd + 2 < length bmp \<and> (bpp = 32 \<longrightarrow> s td H r j N pd + 3 < length bmp) \<and>
       r * width * 4 + 4 * j + 3 < length rgba \<and>
       rgba' ! (r * width * 4 + 4 * j) = bmp ! (s td H r j N pd + 2) \<and>
       rgba' ! (r * width * 4 + 4 * j + 1) = bmp ! (s td H r j N pd + 1) \<and>
       rgba' ! (r * width * 4 + 4 * j + 2) = bmp ! (s td H r j N pd) \<and>
       rgba' ! (r * width * 4 + 4 * j + 3) =
         (if bpp = 32 then bmp ! (s td H r j N pd + 3) else 0xFF)"
    if "y \<le> r" "r < H" "j < width" for r j
  proof (cases "r = y")
    case True
    have sy: "Suc y * width * 4 = y * width * 4 + 4 * width" by simp
    have idx: "y * width * 4 + 4 * j + 3 < Suc y * width * 4"
      unfolding sy using that(3) by linarith
    have s_eq: "s td H y j N pd = ?src + j * N" by (simp add: s_def)
    from that(3) have j: "j < width - 0" by simp
    note D = decode_row_SomeD [OF row j]
    from idx have K:
      "rgba' ! (y * width * 4 + 4 * j) = rgba1 ! (y * width * 4 + 4 * j)"
      "rgba' ! (y * width * 4 + 4 * j + 1) = rgba1 ! (y * width * 4 + 4 * j + 1)"
      "rgba' ! (y * width * 4 + 4 * j + 2) = rgba1 ! (y * width * 4 + 4 * j + 2)"
      "rgba' ! (y * width * 4 + 4 * j + 3) = rgba1 ! (y * width * 4 + 4 * j + 3)"
      by (simp_all add: keep)
    show ?thesis
      unfolding True s_eq K using D by (intro conjI)
  next
    case False
    with that have "Suc y \<le> r \<and> r < H \<and> j < width" by simp
    with IH show ?thesis
      unfolding len1 by blast
  qed
  have rest: "rgba' ! i = rgba ! i" if "i < y * width * 4 \<or> H * width * 4 \<le> i" for i
  proof -
    from that have "i < Suc y * width * 4 \<or> H * width * 4 \<le> i" by auto
    then have "rgba' ! i = rgba1 ! i" by (rule keep)
    also from that le have "rgba1 ! i = rgba ! i" by (intro keep1) auto
    finally show ?thesis .
  qed
  from len pix rest show ?case by blast
qed


lemma decode_rows_progress:
  fixes rs :: "32 word"
  defines "s \<equiv> \<lambda>td H r j N pd. pd + unat (of_nat (if td then r else H - 1 - r) * rs) + j * N"
  assumes "\<forall>r j. y \<le> r \<and> r < H \<and> j < width \<longrightarrow>
       s td H r j N pd + 2 < length bmp \<and> (bpp = 32 \<longrightarrow> s td H r j N pd + 3 < length bmp) \<and>
       r * width * 4 + 4 * j + 3 < length rgba"
  shows "\<exists>rgba'. decode_rows bmp pd rs width H td bpp N y rgba = Some rgba'"
  using assms(2)
proof (induction "H - y" arbitrary: y rgba)
  case 0
  then show ?case by (simp add: decode_rows.simps)
next
  case (Suc n)
  from Suc.hyps(2) have lt: "y < H" and n: "n = H - Suc y" by simp_all
  let ?src = "pd + unat (of_nat (if td then y else H - 1 - y) * rs)"
  have "\<forall>j < width - 0.
       ?src + j * N + 2 < length bmp \<and> (bpp = 32 \<longrightarrow> ?src + j * N + 3 < length bmp) \<and>
       y * width * 4 + 4 * j + 3 < length rgba"
    using Suc.prems lt unfolding s_def by simp
  from decode_row_progress [OF this] obtain rgba1 where
    row: "decode_row bmp bpp N width 0 ?src (y * width * 4) rgba = Some rgba1" by blast
  from decode_row_Some [OF row] have len1: "length rgba1 = length rgba" by simp
  have "\<forall>r j. Suc y \<le> r \<and> r < H \<and> j < width \<longrightarrow>
       s td H r j N pd + 2 < length bmp \<and> (bpp = 32 \<longrightarrow> s td H r j N pd + 3 < length bmp) \<and>
       r * width * 4 + 4 * j + 3 < length rgba1"
    using Suc.prems unfolding len1 by auto
  from Suc.hyps(1) [OF n this] obtain rgba' where
    "decode_rows bmp pd rs width H td bpp N (Suc y) rgba1 = Some rgba'" by blast
  with lt row show ?case
    by (simp add: decode_rows.simps [of bmp pd rs width H td bpp N y] Let_def)
qed


section \<open>Decoding: what a successful run returns and when a run succeeds\<close>

lemma size_t_of_int_nonneg: "0 \<le> p \<Longrightarrow> p < 2 ^ 64 \<Longrightarrow> size_t_of_int p = nat p"
  by (simp add: size_t_of_int_def)

lemma size_t_of_int_neg:
  assumes "p < 0" "- (2 ^ 63) \<le> p"
  shows "2 ^ 63 \<le> size_t_of_int p"
proof -
  have "p mod 2 ^ 64 = (p + 2 ^ 64) mod 2 ^ 64" by simp
  also from assms have "\<dots> = p + 2 ^ 64" by (intro mod_pos_pos_trivial) simp_all
  finally have "size_t_of_int p = nat (p + 2 ^ 64)" by (simp add: size_t_of_int_def)
  with assms show ?thesis by simp
qed

lemma malloc_Some:
  assumes "malloc env n = Some b"
  shows "n < 2 ^ 63" "can_alloc env n" "length b = n"
  using assms by (auto simp add: malloc_def split: if_splits)

lemma malloc_size_t:
  assumes "malloc env (size_t_of_int p) = Some b" "- (2 ^ 63) \<le> p" "p < 2 ^ 63"
  shows "0 \<le> p" "can_alloc env (nat p)" "length b = nat p"
proof -
  from malloc_Some [OF assms(1)] have lt: "size_t_of_int p < 2 ^ 63"
    and ca: "can_alloc env (size_t_of_int p)" and len: "length b = size_t_of_int p" by simp_all
  show nn: "0 \<le> p"
  proof (rule ccontr)
    assume "\<not> 0 \<le> p"
    then have "2 ^ 63 \<le> size_t_of_int p" using assms(2) by (intro size_t_of_int_neg) simp_all
    with lt show False by simp
  qed
  with assms(3) have "size_t_of_int p = nat p" by (intro size_t_of_int_nonneg) simp_all
  with ca len show "can_alloc env (nat p)" "length b = nat p" by simp_all
qed

lemma decode_pixels_unfold:
  fixes dh :: bmp_dib_header and fh :: bmp_file_header
  defines "w \<equiv> dib_width dh" and "h \<equiv> dib_height dh"
  defines "abh \<equiv> (if sint h < 0 then - h else h)"
  defines "n \<equiv> (ucast (dib_bpp dh div 8) :: 32 word)"
  defines "rs \<equiv> (w * n + 3) div 4 * 4"
  shows "decode_pixels env bs fh dh =
    (if sint h = - (2 ^ 31) then Inl UndefinedBehaviour
     else if length bs < unat (fh_data_offset fh + rs * abh) then Inl TruncatedData
     else if \<not> int32_ok (sint w * sint abh) \<or> \<not> int32_ok (sint w * sint abh * 4)
       then Inl UndefinedBehaviour
     else case malloc env (size_t_of_int (sint w * sint abh * 4)) of
        None \<Rightarrow> Inl AllocationFailure
      | Some rgba_data \<Rightarrow>
          (case decode_rows bs (unat (fh_data_offset fh)) rs (nat (sint w)) (nat (sint abh))
                  (sint h < 0) (dib_bpp dh) (unat n) 0 rgba_data of
             None \<Rightarrow> Inl UndefinedBehaviour
           | Some rgba \<Rightarrow> Inr \<lparr>img_width = scast w, img_height = scast abh, img_data = rgba\<rparr>))"
  unfolding decode_pixels_def Let_def w_def h_def abh_def n_def rs_def by simp

lemma sint_abs_height:
  fixes h :: "32 word"
  assumes "sint h \<noteq> - (2 ^ 31)"
  shows "sint (if sint h < 0 then - h else h) = \<bar>sint h\<bar>"
  using sint_neg_32 [OF assms] by simp

lemma decode_rows_SomeD:
  fixes rs :: "32 word"
  assumes "decode_rows bmp pd rs width H td bpp N 0 rgba = Some rgba'"
    and "r < H" and "j < width"
  defines "s \<equiv> pd + unat (of_nat (if td then r else H - 1 - r) * rs) + j * N"
  shows "s + 2 < length bmp"
    and "bpp = 32 \<longrightarrow> s + 3 < length bmp"
    and "rgba' ! (r * width * 4 + 4 * j) = bmp ! (s + 2)"
    and "rgba' ! (r * width * 4 + 4 * j + 1) = bmp ! (s + 1)"
    and "rgba' ! (r * width * 4 + 4 * j + 2) = bmp ! s"
    and "rgba' ! (r * width * 4 + 4 * j + 3) = (if bpp = 32 then bmp ! (s + 3) else 0xFF)"
  using decode_rows_Some [OF assms(1)] assms(2,3) unfolding s_def by blast+

lemma decode_rows_length:
  "decode_rows bmp pd rs width H td bpp N y rgba = Some rgba' \<Longrightarrow> length rgba' = length rgba"
  using decode_rows_Some by blast

lemma decode_pixels_Inr:
  fixes dh :: bmp_dib_header and fh :: bmp_file_header
  defines "W \<equiv> sint (dib_width dh)" and "H \<equiv> sint (dib_height dh)"
  defines "N \<equiv> unat (dib_bpp dh) div 8" and "off \<equiv> unat (fh_data_offset fh)"
  defines "a \<equiv> \<lambda>y x. off + (if H < 0 then y else nat \<bar>H\<bar> - 1 - y) * stride (nat W) N + x * N"
  assumes dec: "decode_pixels env bs fh dh = Inr img"
    and bpp: "dib_bpp dh = 24 \<or> dib_bpp dh = 32"
  shows "H \<noteq> - (2 ^ 31)"
    and "0 \<le> W * \<bar>H\<bar> * 4" and "W * \<bar>H\<bar> * 4 < 2 ^ 31"
    and "can_alloc env (nat (W * \<bar>H\<bar> * 4))"
    and "sint (img_width img) = W"
    and "sint (img_height img) = \<bar>H\<bar>"
    and "length (img_data img) = nat (W * \<bar>H\<bar> * 4)"
    and "\<And>y x. y < nat \<bar>H\<bar> \<Longrightarrow> x < nat W \<Longrightarrow>
          a y x + N \<le> length bs \<and>
          img_data img ! (4 * (y * nat W + x)) = bs ! (a y x + 2) \<and>
          img_data img ! (4 * (y * nat W + x) + 1) = bs ! (a y x + 1) \<and>
          img_data img ! (4 * (y * nat W + x) + 2) = bs ! (a y x) \<and>
          img_data img ! (4 * (y * nat W + x) + 3) =
            (if dib_bpp dh = 32 then bs ! (a y x + 3) else 0xFF)"
proof -
  define w where "w = dib_width dh"
  define h where "h = dib_height dh"
  define abh where "abh = (if sint h < 0 then - h else h)"
  define n where "n = (ucast (dib_bpp dh div 8) :: 32 word)"
  define rs where "rs = (w * n + 3) div 4 * 4"
  define p where "p = W * \<bar>H\<bar> * 4"
  note U = decode_pixels_unfold [of env bs fh dh, folded w_def h_def, folded abh_def n_def, folded rs_def]
  from dec show nmin: "H \<noteq> - (2 ^ 31)"
    unfolding U H_def h_def by (simp split: if_splits)
  then have sabh: "sint abh = \<bar>H\<bar>"
    unfolding abh_def H_def h_def by (rule sint_abs_height)
  have sw: "sint w = W" by (simp add: w_def W_def)
  from dec nmin have ok: "int32_ok (W * \<bar>H\<bar>)" "int32_ok p"
    unfolding U sabh sw p_def H_def h_def by (simp_all split: if_splits)
  from dec nmin ok obtain rgba0 rgba where
    ma: "malloc env (size_t_of_int p) = Some rgba0"
    and rows: "decode_rows bs off rs (nat W) (nat \<bar>H\<bar>) (H < 0) (dib_bpp dh) (unat n) 0 rgba0 = Some rgba"
    and img: "img = \<lparr>img_width = scast w, img_height = scast abh, img_data = rgba\<rparr>"
    unfolding U sabh sw p_def [symmetric] off_def [symmetric]
    unfolding H_def h_def
    by (auto split: if_splits option.splits)
  from ok(2) have pr: "- (2 ^ 63) \<le> p" "p < 2 ^ 63" "p < 2 ^ 31"
    by (simp_all add: int32_ok_def)
  note M = malloc_size_t [OF ma pr(1,2)]
  from M(1) show "0 \<le> W * \<bar>H\<bar> * 4" by (simp add: p_def)
  from pr(3) show "W * \<bar>H\<bar> * 4 < 2 ^ 31" by (simp add: p_def)
  from M(2) show "can_alloc env (nat (W * \<bar>H\<bar> * 4))" by (simp add: p_def)
  show "sint (img_width img) = W" by (simp add: img sint_scast_32_64 sw)
  show "sint (img_height img) = \<bar>H\<bar>" by (simp add: img sint_scast_32_64 sabh)
  from decode_rows_length [OF rows] M(3)
  show len: "length (img_data img) = nat (W * \<bar>H\<bar> * 4)" by (simp add: img p_def)
  have nN: "unat n = N" and n34: "N = 3 \<or> N = 4"
    using bpp unfolding n_def N_def by auto
  fix y x
  assume y: "y < nat \<bar>H\<bar>" and x: "x < nat W"
  define nW where "nW = nat W"
  define nH where "nH = nat \<bar>H\<bar>"
  define r where "r = (if H < 0 then y else nH - 1 - y)"
  from x have Wpos: "0 \<le> W" by simp
  then have uw: "unat w = nW" unfolding nW_def sw [symmetric] by (intro unat_nonneg_sint_32) simp
  from y have Hpos: "1 \<le> nH" by (simp add: nH_def)
  from Wpos have "p = int (nW * nH * 4)" by (simp add: p_def nW_def nH_def)
  with pr(3) have small: "nW * nH * 4 < 2 ^ 31" by (metis of_nat_less_numeral_power_cancel_iff)
  from Hpos have "nW \<le> nW * nH" by (cases nH) simp_all
  then have "nW * 4 \<le> nW * nH * 4" by simp
  from this small have nW4: "nW * 4 < 2 ^ 31" by (rule le_less_trans)
  from n34 nW4 have "nW * N + 3 < 2 ^ 32" by auto
  then have urs: "unat rs = stride nW N"
    unfolding rs_def uw [symmetric] nN [symmetric] by (intro row_size_exact)
  from n34 have st: "stride nW N \<le> 4 * nW"
    using stride_3_le [of nW] stride_4 [of nW] by auto
  have rlt: "r < nH" using y unfolding r_def nH_def by auto
  then have "r * stride nW N \<le> nH * (4 * nW)" using st by (intro mult_le_mono) simp_all
  with small have "r * unat rs < 2 ^ 32" unfolding urs by (simp add: ac_simps)
  then have ro: "unat (of_nat r * rs) = r * stride nW N"
    unfolding urs [symmetric] by (rule row_offset_exact)
  have aeq: "a y x = off + unat (of_nat (if H < 0 then y else nat \<bar>H\<bar> - 1 - y) * rs) + x * unat n"
    using ro unfolding a_def r_def nH_def nW_def nN by simp
  have ieq: "4 * (y * nat W + x) = y * nat W * 4 + 4 * x" by simp
  note D = decode_rows_SomeD [OF rows y x, folded aeq, folded ieq]
  from D(1,2) n34 bpp have inb: "a y x + N \<le> length bs"
    unfolding N_def by auto
  from inb D(3-6)
  show "a y x + N \<le> length bs \<and>
          img_data img ! (4 * (y * nat W + x)) = bs ! (a y x + 2) \<and>
          img_data img ! (4 * (y * nat W + x) + 1) = bs ! (a y x + 1) \<and>
          img_data img ! (4 * (y * nat W + x) + 2) = bs ! (a y x) \<and>
          img_data img ! (4 * (y * nat W + x) + 3) =
            (if dib_bpp dh = 32 then bs ! (a y x + 3) else 0xFF)"
    unfolding img by simp
qed

lemma geometry_exact:
  fixes w n :: "32 word"
  assumes w: "0 \<le> sint w" and small: "nat (sint w) * nH * 4 < 2 ^ 31" and nH: "1 \<le> nH"
    and n: "unat n = 3 \<or> unat n = 4"
  defines "rs \<equiv> (w * n + 3) div 4 * 4"
  shows "unat rs = stride (nat (sint w)) (unat n)"
    and "\<And>r. r < nH \<Longrightarrow> unat (of_nat r * rs) = r * stride (nat (sint w)) (unat n)"
    and "\<And>r. r < nH \<Longrightarrow> Suc r * stride (nat (sint w)) (unat n) \<le> nH * stride (nat (sint w)) (unat n)"
proof -
  define nW where "nW = nat (sint w)"
  from w have uw: "unat w = nW" unfolding nW_def by (rule unat_nonneg_sint_32)
  from nH have "nW \<le> nW * nH" by (cases nH) simp_all
  then have "nW * 4 \<le> nW * nH * 4" by simp
  from this small have nW4: "nW * 4 < 2 ^ 31" unfolding nW_def by (rule le_less_trans)
  from n nW4 have "unat w * unat n + 3 < 2 ^ 32" unfolding uw by auto
  then show urs: "unat rs = stride (nat (sint w)) (unat n)"
    unfolding rs_def nW_def [symmetric] uw [symmetric] by (rule row_size_exact)
  from n have st: "stride nW (unat n) \<le> 4 * nW"
    using stride_3_le [of nW] stride_4 [of nW] by auto
  fix r assume rlt: "r < nH"
  then have "r * stride nW (unat n) \<le> nH * (4 * nW)" using st by (intro mult_le_mono) simp_all
  with small have "r * unat rs < 2 ^ 32" unfolding urs nW_def [symmetric] by (simp add: ac_simps)
  then show "unat (of_nat r * rs) = r * stride (nat (sint w)) (unat n)"
    unfolding urs [symmetric] by (rule row_offset_exact)
  from rlt have "Suc r \<le> nH" by simp
  then show "Suc r * stride (nat (sint w)) (unat n) \<le> nH * stride (nat (sint w)) (unat n)"
    by (rule mult_le_mono1)
qed

lemma unat_add_le: "unat (a + b) \<le> unat a + unat b" for a b :: "32 word"
  by (simp add: unat_word_ariths)

lemma unat_mult_le: "unat (a * b) \<le> unat a * unat b" for a b :: "32 word"
  by (simp add: unat_word_ariths)

lemma decode_pixels_succeeds:
  fixes dh :: bmp_dib_header and fh :: bmp_file_header
  defines "W \<equiv> sint (dib_width dh)" and "H \<equiv> sint (dib_height dh)"
  defines "N \<equiv> unat (dib_bpp dh) div 8" and "off \<equiv> unat (fh_data_offset fh)"
  assumes bpp: "dib_bpp dh = 24 \<or> dib_bpp dh = 32"
    and nmin: "H \<noteq> - (2 ^ 31)"
    and Wpos': "0 \<le> W \<or> H = 0"
    and small: "W * \<bar>H\<bar> * 4 < 2 ^ 31"
    and ext: "off + stride (nat W) N * nat \<bar>H\<bar> \<le> length bs"
    and ca: "can_alloc env (nat (W * \<bar>H\<bar> * 4))"
  shows "\<exists>img. decode_pixels env bs fh dh = Inr img"
proof -
  define w where "w = dib_width dh"
  define h where "h = dib_height dh"
  define abh where "abh = (if sint h < 0 then - h else h)"
  define n where "n = (ucast (dib_bpp dh div 8) :: 32 word)"
  define rs where "rs = (w * n + 3) div 4 * 4"
  define p where "p = W * \<bar>H\<bar> * 4"
  define nW where "nW = nat W"
  define nH where "nH = nat \<bar>H\<bar>"
  note U = decode_pixels_unfold [of env bs fh dh, folded w_def h_def, folded abh_def n_def, folded rs_def]
  from nmin have sabh: "sint abh = \<bar>H\<bar>"
    unfolding abh_def H_def h_def by (rule sint_abs_height)
  have sw: "sint w = W" by (simp add: w_def W_def)
  have nN: "unat n = N" and n34: "unat n = 3 \<or> unat n = 4"
    using bpp unfolding n_def N_def by auto
  have uabh: "unat abh = nH" unfolding nH_def sabh [symmetric] by (rule unat_nonneg_sint_32) (simp add: sabh)
  from Wpos' have pW: "p = int (nW * nH * 4)" by (auto simp add: p_def nW_def nH_def)
  with small have smallnat: "nW * nH * 4 < 2 ^ 31" unfolding p_def [symmetric] by (metis of_nat_less_numeral_power_cancel_iff)
  have exact: "unat rs = stride nW N" "\<And>r. r < nH \<Longrightarrow> unat (of_nat r * rs) = r * stride nW N"
    "\<And>r. r < nH \<Longrightarrow> Suc r * stride nW N \<le> nH * stride nW N" if "1 \<le> nH"
  proof -
    from that Wpos' have Wpos: "0 \<le> W" by (auto simp add: nH_def)
    show "unat rs = stride nW N" "\<And>r. r < nH \<Longrightarrow> unat (of_nat r * rs) = r * stride nW N"
      "\<And>r. r < nH \<Longrightarrow> Suc r * stride nW N \<le> nH * stride nW N"
      using geometry_exact [of w nH n, OF _ _ that n34] Wpos smallnat
      unfolding sw nW_def [symmetric] rs_def [symmetric] nN by simp_all
  qed
  have check: "\<not> length bs < unat (fh_data_offset fh + rs * abh)"
  proof (cases "nH = 0")
    case True
    then have "abh = 0" using uabh by (simp add: unat_eq_0)
    with ext show ?thesis by (simp add: off_def)
  next
    case False
    then have "1 \<le> nH" by simp
    note E = exact [OF this]
    have "unat (fh_data_offset fh + rs * abh) \<le> off + unat (rs * abh)"
      unfolding off_def by (rule unat_add_le)
    also have "unat (rs * abh) \<le> unat rs * unat abh" by (rule unat_mult_le)
    finally have "unat (fh_data_offset fh + rs * abh) \<le> off + stride nW N * nH"
      unfolding E(1) uabh by simp
    with ext show ?thesis unfolding nW_def nH_def by simp
  qed
  from pW have p0: "0 \<le> p" by simp
  have "0 \<le> W * \<bar>H\<bar>" using Wpos' by auto
  moreover have "W * \<bar>H\<bar> \<le> p" using Wpos' by (auto simp add: p_def)
  ultimately have ok: "int32_ok (W * \<bar>H\<bar>)" "int32_ok p"
    using small p0 unfolding int32_ok_def p_def by simp_all
  from p0 small have sz: "size_t_of_int p = nat p"
    unfolding p_def by (intro size_t_of_int_nonneg) simp_all
  from small have "nat p < 2 ^ 63" unfolding p_def by simp
  with ca have "malloc env (nat p) = Some (map (junk env) [0..<nat p])"
    by (simp add: malloc_def p_def)
  then have ma: "malloc env (size_t_of_int p) = Some (map (junk env) [0..<nat p])"
    by (simp only: sz)
  define rgba0 where "rgba0 = map (junk env) [0..<nat p]"
  have np: "nat p = nW * nH * 4" by (simp only: pW nat_int)
  have len0: "length rgba0 = nW * nH * 4" unfolding rgba0_def by (simp add: np)
  have "\<forall>r j. 0 \<le> r \<and> r < nH \<and> j < nW \<longrightarrow>
       off + unat (of_nat (if H < 0 then r else nH - 1 - r) * rs) + j * unat n + 2 < length bs \<and>
       (dib_bpp dh = 32 \<longrightarrow> off + unat (of_nat (if H < 0 then r else nH - 1 - r) * rs) + j * unat n + 3 < length bs) \<and>
       r * nW * 4 + 4 * j + 3 < length rgba0"
  proof (intro allI impI)
    fix r j assume "0 \<le> r \<and> r < nH \<and> j < nW"
    then have r: "r < nH" and j: "j < nW" by simp_all
    then have "1 \<le> nH" by simp
    note E = exact [OF this]
    define r' where "r' = (if H < 0 then r else nH - 1 - r)"
    from r have r': "r' < nH" unfolding r'_def by auto
    from j have "j * N + N \<le> nW * N" using mult_le_mono1 [of "Suc j" nW N] by simp
    also have "nW * N \<le> stride nW N" by (rule stride_ge)
    finally have "r' * stride nW N + j * N + N \<le> Suc r' * stride nW N" by simp
    also note E(3) [OF r']
    finally have "off + r' * stride nW N + j * N + N \<le> off + stride nW N * nH"
      by (simp add: ac_simps)
    with ext have inb: "off + r' * stride nW N + j * N + N \<le> length bs"
      unfolding nW_def nH_def by simp
    from r have "Suc r * nW \<le> nH * nW" by (intro mult_le_mono1) simp
    then have le: "r * nW + nW \<le> nW * nH" by (simp add: ac_simps)
    from j have "r * nW * 4 + 4 * j + 3 < (r * nW + nW) * 4" by simp
    also from le have "\<dots> \<le> nW * nH * 4" by (rule mult_le_mono1)
    finally have dst: "r * nW * 4 + 4 * j + 3 < length rgba0" unfolding len0 .
    from inb dst bpp show "off + unat (of_nat (if H < 0 then r else nH - 1 - r) * rs) + j * unat n + 2 < length bs \<and>
       (dib_bpp dh = 32 \<longrightarrow> off + unat (of_nat (if H < 0 then r else nH - 1 - r) * rs) + j * unat n + 3 < length bs) \<and>
       r * nW * 4 + 4 * j + 3 < length rgba0"
      unfolding r'_def [symmetric] E(2) [OF r'] nN unfolding N_def by auto
  qed
  from decode_rows_progress [OF this] obtain rgba where
    "decode_rows bs off rs nW nH (H < 0) (dib_bpp dh) (unat n) 0 rgba0 = Some rgba" by blast
  with nmin check ok ma show ?thesis
    unfolding U sabh sw p_def [symmetric] off_def [symmetric] nW_def [symmetric] nH_def [symmetric]
      rgba0_def [symmetric]
    unfolding H_def h_def by simp
qed

lemma header_fields:
  "fh_data_offset (file_header_at bs 0) = read_u32 bs 10"
  "dib_width (dib_header_at bs 14) = read_u32 bs 18"
  "dib_height (dib_header_at bs 14) = read_u32 bs 22"
  "dib_bpp (dib_header_at bs 14) = read_u16 bs 28"
  by (simp_all add: file_header_at_def dib_header_at_def)

lemma bpp_word_nat:
  "read_u16 bs 28 = 24 \<longleftrightarrow> bmp_bpp bs = 24"
  "read_u16 bs 28 = 32 \<longleftrightarrow> bmp_bpp bs = 32"
  unfolding bmp_bpp_def by (simp_all add: word_unat_eq_iff)

lemma decode_Inr_pixels:
  assumes "bare_bmp_decode env bs = Inr img"
  shows "54 \<le> length bs" and "read_u16 bs 0 = 0x4D42" and "read_u32 bs 14 = 40" and "read_u32 bs 30 = 0"
    and "bmp_bpp bs = 24 \<or> bmp_bpp bs = 32"
    and "decode_pixels env bs (file_header_at bs 0) (dib_header_at bs 14) = Inr img"
  using assms unfolding bare_bmp_decode_checks bpp_word_nat [symmetric]
  by (simp_all split: if_splits)

lemma decode_Inr:
  assumes dec: "bare_bmp_decode env bs = Inr img"
  defines "W \<equiv> bmp_width bs" and "H \<equiv> bmp_height bs" and "N \<equiv> bmp_bpp bs div 8"
  shows "H \<noteq> - (2 ^ 31)"
    and "0 \<le> W * \<bar>H\<bar> * 4" and "W * \<bar>H\<bar> * 4 < 2 ^ 31"
    and "can_alloc env (nat (W * \<bar>H\<bar> * 4))"
    and "sint (img_width img) = W"
    and "sint (img_height img) = \<bar>H\<bar>"
    and "length (img_data img) = nat (W * \<bar>H\<bar> * 4)"
    and "\<And>y x. y < nat \<bar>H\<bar> \<Longrightarrow> x < nat W \<Longrightarrow>
          pixel_addr bs (src_row H y) x + N \<le> length bs \<and>
          img_data img ! (4 * (y * nat W + x)) = bs ! (pixel_addr bs (src_row H y) x + 2) \<and>
          img_data img ! (4 * (y * nat W + x) + 1) = bs ! (pixel_addr bs (src_row H y) x + 1) \<and>
          img_data img ! (4 * (y * nat W + x) + 2) = bs ! (pixel_addr bs (src_row H y) x) \<and>
          img_data img ! (4 * (y * nat W + x) + 3) =
            (if bmp_bpp bs = 32 then bs ! (pixel_addr bs (src_row H y) x + 3) else 0xFF)"
proof -
  note P = decode_Inr_pixels [OF dec]
  from P(5) have bpp: "dib_bpp (dib_header_at bs 14) = 24 \<or> dib_bpp (dib_header_at bs 14) = 32"
    unfolding header_fields bpp_word_nat .
  note D = decode_pixels_Inr [OF P(6) bpp, unfolded header_fields, folded bmp_width_def bmp_height_def
      bmp_bpp_def bmp_data_offset_def, folded W_def H_def N_def]
  from D(1-7) show "H \<noteq> - (2 ^ 31)"
    and "0 \<le> W * \<bar>H\<bar> * 4" and "W * \<bar>H\<bar> * 4 < 2 ^ 31"
    and "can_alloc env (nat (W * \<bar>H\<bar> * 4))"
    and "sint (img_width img) = W"
    and "sint (img_height img) = \<bar>H\<bar>"
    and "length (img_data img) = nat (W * \<bar>H\<bar> * 4)" .
  fix y x assume yx: "y < nat \<bar>H\<bar>" "x < nat W"
  have a: "pixel_addr bs (src_row H y) x =
      bmp_data_offset bs + (if H < 0 then y else nat \<bar>H\<bar> - 1 - y) * stride (nat W) N + x * N"
    unfolding pixel_addr_def src_row_def W_def N_def by simp
  from D(8) [OF yx]
  show "pixel_addr bs (src_row H y) x + N \<le> length bs \<and>
          img_data img ! (4 * (y * nat W + x)) = bs ! (pixel_addr bs (src_row H y) x + 2) \<and>
          img_data img ! (4 * (y * nat W + x) + 1) = bs ! (pixel_addr bs (src_row H y) x + 1) \<and>
          img_data img ! (4 * (y * nat W + x) + 2) = bs ! (pixel_addr bs (src_row H y) x) \<and>
          img_data img ! (4 * (y * nat W + x) + 3) =
            (if bmp_bpp bs = 32 then bs ! (pixel_addr bs (src_row H y) x + 3) else 0xFF)"
    unfolding a bpp_word_nat .
qed

lemma decode_succeeds:
  fixes bs :: "byte list"
  defines "W \<equiv> bmp_width bs" and "H \<equiv> bmp_height bs"
  assumes "54 \<le> length bs" and "bs ! 0 = 0x42" and "bs ! 1 = 0x4D"
    and "read_u32 bs 14 = 40" and "read_u32 bs 30 = 0"
    and "bmp_bpp bs = 24 \<or> bmp_bpp bs = 32"
    and "H \<noteq> - (2 ^ 31)"
    and "0 \<le> W \<or> H = 0"
    and "W * \<bar>H\<bar> * 4 < 2 ^ 31"
    and "bmp_data_offset bs + stride (nat (W)) (bmp_bpp bs div 8) * nat \<bar>H\<bar> \<le> length bs"
    and "can_alloc env (nat (W * \<bar>H\<bar> * 4))"
  shows "\<exists>img. bare_bmp_decode env bs = Inr img"
proof -
  from assms(8) have bpp: "dib_bpp (dib_header_at bs 14) = 24 \<or> dib_bpp (dib_header_at bs 14) = 32"
    unfolding header_fields bpp_word_nat .
  have "\<exists>img. decode_pixels env bs (file_header_at bs 0) (dib_header_at bs 14) = Inr img"
    using assms(9-13) unfolding W_def H_def
    by (intro decode_pixels_succeeds [OF bpp])
      (simp_all add: header_fields bmp_width_def bmp_height_def bmp_bpp_def bmp_data_offset_def)
  with assms(3-8) show ?thesis
    unfolding bare_bmp_decode_checks read_u16_magic bpp_word_nat by simp
qed

section \<open>Rows as lists\<close>

lemma length_bgr_to_rgba: "length (bgr_to_rgba xs) = 4 * (length xs div 3)"
  by (induction xs rule: bgr_to_rgba.induct) (simp_all add: div_add_self1)

lemma length_bgra_to_rgba: "length (bgra_to_rgba xs) = 4 * (length xs div 4)"
  by (induction xs rule: bgra_to_rgba.induct) (simp_all add: div_add_self1)

lemma nth_bgr_to_rgba:
  "x < length xs div 3 \<Longrightarrow>
     bgr_to_rgba xs ! (4 * x) = xs ! (3 * x + 2) \<and>
     bgr_to_rgba xs ! (4 * x + 1) = xs ! (3 * x + 1) \<and>
     bgr_to_rgba xs ! (4 * x + 2) = xs ! (3 * x) \<and>
     bgr_to_rgba xs ! (4 * x + 3) = 0xFF"
proof (induction xs arbitrary: x rule: bgr_to_rgba.induct)
  case (1 b g r rest)
  show ?case
  proof (cases x)
    case 0
    then show ?thesis by simp
  next
    case (Suc x')
    with "1.prems" have "x' < length rest div 3" by simp
    from "1.IH" [OF this] show ?thesis unfolding Suc by (simp add: numeral_eq_Suc)
  qed
qed simp_all

lemma nth_bgra_to_rgba:
  "x < length xs div 4 \<Longrightarrow>
     bgra_to_rgba xs ! (4 * x) = xs ! (4 * x + 2) \<and>
     bgra_to_rgba xs ! (4 * x + 1) = xs ! (4 * x + 1) \<and>
     bgra_to_rgba xs ! (4 * x + 2) = xs ! (4 * x) \<and>
     bgra_to_rgba xs ! (4 * x + 3) = xs ! (4 * x + 3)"
proof (induction xs arbitrary: x rule: bgra_to_rgba.induct)
  case (1 b g r a rest)
  show ?case
  proof (cases x)
    case 0
    then show ?thesis by simp
  next
    case (Suc x')
    with "1.prems" have "x' < length rest div 4" by simp
    from "1.IH" [OF this] show ?thesis unfolding Suc by (simp add: numeral_eq_Suc)
  qed
qed simp_all

lemma list_eq_quads:
  assumes "length xs = 4 * n" and "length ys = 4 * n"
    and "\<And>x. x < n \<Longrightarrow> xs ! (4 * x) = ys ! (4 * x) \<and> xs ! (4 * x + 1) = ys ! (4 * x + 1) \<and>
           xs ! (4 * x + 2) = ys ! (4 * x + 2) \<and> xs ! (4 * x + 3) = ys ! (4 * x + 3)"
  shows "xs = ys"
proof (rule nth_equalityI)
  show "length xs = length ys" by (simp add: assms)
  fix i assume "i < length xs"
  then have lt: "i div 4 < n" unfolding assms(1) by simp
  have "i mod 4 = 0 \<or> i mod 4 = 1 \<or> i mod 4 = 2 \<or> i mod 4 = 3" by presburger
  moreover have "i = 4 * (i div 4) + i mod 4" by simp
  ultimately have "i = 4 * (i div 4) \<or> i = 4 * (i div 4) + 1 \<or> i = 4 * (i div 4) + 2 \<or>
      i = 4 * (i div 4) + 3" by presburger
  with assms(3) [OF lt] show "xs ! i = ys ! i" by metis
qed

lemma bmp_file_drop: "drop (54 + k) (bmp_file off w h bpp px) = drop k px"
  by (simp add: bmp_file_def)

section \<open>The encoding loops\<close>

lemma encode_row_ok:
  assumes "\<forall>j < nat (width - int x). src + 4 * j + 2 < length rgba \<and> dst + 3 * j + 2 < length bmp"
    and "width \<le> 2 ^ 31 - 1"
  shows "\<exists>bmp'. encode_row rgba width x src dst bmp = Some bmp' \<and> length bmp' = length bmp \<and>
    (\<forall>j < nat (width - int x).
       bmp' ! (dst + 3 * j) = rgba ! (src + 4 * j + 2) \<and>
       bmp' ! (dst + 3 * j + 1) = rgba ! (src + 4 * j + 1) \<and>
       bmp' ! (dst + 3 * j + 2) = rgba ! (src + 4 * j)) \<and>
    (\<forall>i. i < dst \<or> dst + 3 * nat (width - int x) \<le> i \<longrightarrow> bmp' ! i = bmp ! i)"
  using assms(1)
proof (induction "nat (width - int x)" arbitrary: x src dst bmp)
  case 0
  then have "\<not> int x < width" by simp
  then have "encode_row rgba width x src dst bmp = Some bmp"
    by (simp add: encode_row.simps [of rgba width x])
  with 0 show ?case by simp
next
  case (Suc n)
  let ?bmp1 = "bmp[dst := rgba ! (src + 2), dst + 1 := rgba ! (src + 1), dst + 2 := rgba ! src]"
  from Suc.hyps(2) have lt: "int x < width" and n: "n = nat (width - int (Suc x))"
    and cnt: "nat (width - int x) = Suc n" by simp_all
  from lt assms(2) have xs: "x < 2 ^ 31 - 1" by simp
  from Suc.prems have "src + 4 * 0 + 2 < length rgba \<and> dst + 3 * 0 + 2 < length bmp"
    unfolding cnt by blast
  then have inb: "src + 2 < length rgba" "dst + 2 < length bmp" by simp_all
  have "\<forall>j < nat (width - int (Suc x)).
       src + 4 + 4 * j + 2 < length rgba \<and> dst + 3 + 3 * j + 2 < length ?bmp1"
  proof (intro allI impI)
    fix j assume "j < nat (width - int (Suc x))"
    then have "Suc j < nat (width - int x)" unfolding n [symmetric] cnt by simp
    with Suc.prems have "src + 4 * Suc j + 2 < length rgba \<and> dst + 3 * Suc j + 2 < length bmp"
      by blast
    then show "src + 4 + 4 * j + 2 < length rgba \<and> dst + 3 + 3 * j + 2 < length ?bmp1"
      by (simp add: algebra_simps)
  qed
  from Suc.hyps(1) [OF n this] obtain bmp' where
    rec: "encode_row rgba width (Suc x) (src + 4) (dst + 3) ?bmp1 = Some bmp'"
    and len': "length bmp' = length ?bmp1"
    and vals: "\<forall>j < nat (width - int (Suc x)).
       bmp' ! (dst + 3 + 3 * j) = rgba ! (src + 4 + 4 * j + 2) \<and>
       bmp' ! (dst + 3 + 3 * j + 1) = rgba ! (src + 4 + 4 * j + 1) \<and>
       bmp' ! (dst + 3 + 3 * j + 2) = rgba ! (src + 4 + 4 * j)"
    and keep: "\<forall>i. i < dst + 3 \<or> dst + 3 + 3 * nat (width - int (Suc x)) \<le> i \<longrightarrow>
       bmp' ! i = ?bmp1 ! i"
    by blast
  from lt inb xs rec have run: "encode_row rgba width x src dst bmp = Some bmp'"
    by (simp add: encode_row.simps [of rgba width x])
  from len' have len: "length bmp' = length bmp" by simp
  from keep have k: "\<And>i. i < dst + 3 \<Longrightarrow> bmp' ! i = ?bmp1 ! i" by blast
  have first: "bmp' ! dst = rgba ! (src + 2)" "bmp' ! (dst + 1) = rgba ! (src + 1)"
    "bmp' ! (dst + 2) = rgba ! src"
    using inb(2) by (simp_all add: k)
  have pix: "bmp' ! (dst + 3 * j) = rgba ! (src + 4 * j + 2) \<and>
       bmp' ! (dst + 3 * j + 1) = rgba ! (src + 4 * j + 1) \<and>
       bmp' ! (dst + 3 * j + 2) = rgba ! (src + 4 * j)"
    if "j < nat (width - int x)" for j
  proof (cases j)
    case 0
    with first show ?thesis by simp
  next
    case (Suc j')
    with that have "j' < nat (width - int (Suc x))" unfolding n [symmetric] cnt by simp
    with vals have "bmp' ! (dst + 3 + 3 * j') = rgba ! (src + 4 + 4 * j' + 2) \<and>
       bmp' ! (dst + 3 + 3 * j' + 1) = rgba ! (src + 4 + 4 * j' + 1) \<and>
       bmp' ! (dst + 3 + 3 * j' + 2) = rgba ! (src + 4 + 4 * j')" by blast
    then show ?thesis unfolding Suc by (simp add: algebra_simps)
  qed
  have rest: "bmp' ! i = bmp ! i" if "i < dst \<or> dst + 3 * nat (width - int x) \<le> i" for i
  proof -
    from that have "i < dst + 3 \<or> dst + 3 + 3 * nat (width - int (Suc x)) \<le> i"
      unfolding n [symmetric] cnt by auto
    with keep have "bmp' ! i = ?bmp1 ! i" by blast
    also from that have "?bmp1 ! i = bmp ! i" unfolding cnt by auto
    finally show ?thesis .
  qed
  from run len pix rest show ?case by blast
qed

lemma encode_rows_ok:
  fixes rs :: "32 word"
  assumes W: "0 \<le> width" "width \<le> 2 ^ 31 - 1" and H: "height \<le> 2 ^ 31 - 1"
    and st: "unat rs = st" "3 * nat width \<le> st" and nowrap: "nat height * st < 2 ^ 32"
    and srcb: "nat width * nat height * 4 \<le> length rgba"
    and dstb: "pd + nat height * st \<le> length bmp"
  shows "\<exists>bmp'. encode_rows rgba pd rs width height y bmp = Some bmp' \<and> length bmp' = length bmp \<and>
     (\<forall>r j. y \<le> r \<and> r < nat height \<and> j < nat width \<longrightarrow>
        bmp' ! (pd + (nat height - 1 - r) * st + 3 * j) = rgba ! (r * nat width * 4 + 4 * j + 2) \<and>
        bmp' ! (pd + (nat height - 1 - r) * st + 3 * j + 1) = rgba ! (r * nat width * 4 + 4 * j + 1) \<and>
        bmp' ! (pd + (nat height - 1 - r) * st + 3 * j + 2) = rgba ! (r * nat width * 4 + 4 * j)) \<and>
     (\<forall>i. (\<forall>r. y \<le> r \<and> r < nat height \<longrightarrow>
            i < pd + (nat height - 1 - r) * st \<or> pd + (nat height - 1 - r) * st + 3 * nat width \<le> i) \<longrightarrow>
          bmp' ! i = bmp ! i)"
  using dstb
proof (induction "nat height - y" arbitrary: y bmp)
  case 0
  then have "\<not> int y < height" by simp
  then have run: "encode_rows rgba pd rs width height y bmp = Some bmp"
    by (simp add: encode_rows.simps [of rgba pd rs width height y])
  from 0 have none: "\<not> (y \<le> r \<and> r < nat height)" for r by simp
  have pix: "bmp ! (pd + (nat height - 1 - r) * st + 3 * j) = rgba ! (r * nat width * 4 + 4 * j + 2) \<and>
        bmp ! (pd + (nat height - 1 - r) * st + 3 * j + 1) = rgba ! (r * nat width * 4 + 4 * j + 1) \<and>
        bmp ! (pd + (nat height - 1 - r) * st + 3 * j + 2) = rgba ! (r * nat width * 4 + 4 * j)"
    if "y \<le> r \<and> r < nat height \<and> j < nat width" for r j
  proof -
    from that none [of r] have False by simp
    then show ?thesis ..
  qed
  from run pix show ?case by blast
next
  case (Suc n)
  define nW where "nW = nat width"
  define nH where "nH = nat height"
  define k where "k = nH - 1 - y"
  define dst where "dst = pd + k * st"
  from Suc.hyps(2) have ylt: "y < nH" and n: "n = nat height - Suc y" unfolding nH_def by simp_all
  then have lt: "int y < height" unfolding nH_def by simp
  from ylt have klt: "k < nH" and k1: "Suc k \<le> nH" unfolding k_def by simp_all
  from W(1) have wint: "width = int nW" unfolding nW_def by simp
  from lt have "height - 1 - int y = int k" unfolding k_def nH_def by simp
  then have drow: "(word_of_int (height - 1 - int y) :: 32 word) = of_nat k" by simp
  from klt have "k * st \<le> nH * st" by (intro mult_le_mono1) simp
  from this nowrap [folded nH_def] have "k * st < 2 ^ 32" by (rule le_less_trans)
  then have "k * unat rs < 2 ^ 32" unfolding st(1) .
  then have off: "unat (of_nat k * rs) = k * st"
    unfolding st(1) [symmetric] by (rule row_offset_exact)
  have src: "nat (int y * width * 4) = y * nW * 4"
  proof -
    have "int y * width * 4 = int (y * nW * 4)" unfolding wint by simp
    then show ?thesis by (simp only: nat_int)
  qed
  from k1 have "Suc k * st \<le> nH * st" by (rule mult_le_mono1)
  then have rowend: "dst + st \<le> pd + nH * st" unfolding dst_def by simp
  from ylt have "Suc y * nW \<le> nH * nW" by (intro mult_le_mono1) simp
  then have srcend: "(y * nW + nW) * 4 \<le> nW * nH * 4" by (simp add: ac_simps)
  have inb: "\<forall>j < nat (width - int 0).
      y * nW * 4 + 4 * j + 2 < length rgba \<and> dst + 3 * j + 2 < length bmp"
  proof (intro allI impI)
    fix j assume "j < nat (width - int 0)"
    then have j: "j < nW" unfolding nW_def by simp
    then have "y * nW * 4 + 4 * j + 2 < (y * nW + nW) * 4" by simp
    also note srcend
    also note srcb [folded nW_def nH_def]
    finally have a: "y * nW * 4 + 4 * j + 2 < length rgba" .
    from j st(2) have "dst + 3 * j + 2 < dst + st" unfolding nW_def by simp
    also note rowend
    also note Suc.prems [folded nH_def]
    finally have "dst + 3 * j + 2 < length bmp" .
    with a show "y * nW * 4 + 4 * j + 2 < length rgba \<and> dst + 3 * j + 2 < length bmp" ..
  qed
  from encode_row_ok [OF inb W(2)] obtain bmp1 where
    row: "encode_row rgba width 0 (y * nW * 4) dst bmp = Some bmp1"
    and len1: "length bmp1 = length bmp"
    and vals1: "\<forall>j < nat (width - int 0).
       bmp1 ! (dst + 3 * j) = rgba ! (y * nW * 4 + 4 * j + 2) \<and>
       bmp1 ! (dst + 3 * j + 1) = rgba ! (y * nW * 4 + 4 * j + 1) \<and>
       bmp1 ! (dst + 3 * j + 2) = rgba ! (y * nW * 4 + 4 * j)"
    and keep1: "\<forall>i. i < dst \<or> dst + 3 * nat (width - int 0) \<le> i \<longrightarrow> bmp1 ! i = bmp ! i"
    by blast
  from Suc.prems have "pd + nat height * st \<le> length bmp1" unfolding len1 .
  from Suc.hyps(1) [OF n this] obtain bmp' where
    rec: "encode_rows rgba pd rs width height (Suc y) bmp1 = Some bmp'"
    and len': "length bmp' = length bmp1"
    and vals: "\<forall>r j. Suc y \<le> r \<and> r < nat height \<and> j < nat width \<longrightarrow>
        bmp' ! (pd + (nat height - 1 - r) * st + 3 * j) = rgba ! (r * nat width * 4 + 4 * j + 2) \<and>
        bmp' ! (pd + (nat height - 1 - r) * st + 3 * j + 1) = rgba ! (r * nat width * 4 + 4 * j + 1) \<and>
        bmp' ! (pd + (nat height - 1 - r) * st + 3 * j + 2) = rgba ! (r * nat width * 4 + 4 * j)"
    and keep: "\<forall>i. (\<forall>r. Suc y \<le> r \<and> r < nat height \<longrightarrow>
            i < pd + (nat height - 1 - r) * st \<or> pd + (nat height - 1 - r) * st + 3 * nat width \<le> i) \<longrightarrow>
          bmp' ! i = bmp1 ! i"
    by blast
  from lt H have ys: "y < 2 ^ 31 - 1" by simp
  from lt row rec ys have run: "encode_rows rgba pd rs width height y bmp = Some bmp'"
    unfolding encode_rows.simps [of rgba pd rs width height y] Let_def drow off src dst_def
    by simp
  from len' len1 have len: "length bmp' = length bmp" by simp
  have below: "pd + (nat height - 1 - r) * st + 3 * nat width \<le> dst"
    if "Suc y \<le> r" "r < nat height" for r
  proof -
    from that have "Suc (nH - 1 - r) \<le> k" unfolding k_def nH_def by simp
    then have "Suc (nH - 1 - r) * st \<le> k * st" by (rule mult_le_mono1)
    with st(2) show ?thesis unfolding dst_def nH_def by simp
  qed
  have pix: "bmp' ! (pd + (nat height - 1 - r) * st + 3 * j) = rgba ! (r * nat width * 4 + 4 * j + 2) \<and>
        bmp' ! (pd + (nat height - 1 - r) * st + 3 * j + 1) = rgba ! (r * nat width * 4 + 4 * j + 1) \<and>
        bmp' ! (pd + (nat height - 1 - r) * st + 3 * j + 2) = rgba ! (r * nat width * 4 + 4 * j)"
    if "y \<le> r \<and> r < nat height \<and> j < nat width" for r j
  proof (cases "r = y")
    case True
    from that have j: "j < nat (width - int 0)" by simp
    have safe: "bmp' ! i = bmp1 ! i" if "dst \<le> i" for i
    proof -
      have "\<forall>r. Suc y \<le> r \<and> r < nat height \<longrightarrow>
            i < pd + (nat height - 1 - r) * st \<or> pd + (nat height - 1 - r) * st + 3 * nat width \<le> i"
        using below that by (meson le_trans)
      with keep show ?thesis by blast
    qed
    from vals1 j have "bmp1 ! (dst + 3 * j) = rgba ! (y * nW * 4 + 4 * j + 2) \<and>
       bmp1 ! (dst + 3 * j + 1) = rgba ! (y * nW * 4 + 4 * j + 1) \<and>
       bmp1 ! (dst + 3 * j + 2) = rgba ! (y * nW * 4 + 4 * j)" by blast
    moreover have "bmp' ! (dst + 3 * j) = bmp1 ! (dst + 3 * j)"
      "bmp' ! (dst + 3 * j + 1) = bmp1 ! (dst + 3 * j + 1)"
      "bmp' ! (dst + 3 * j + 2) = bmp1 ! (dst + 3 * j + 2)"
      by (simp_all add: safe)
    ultimately show ?thesis
      unfolding True dst_def k_def nH_def nW_def by simp
  next
    case False
    with that have "Suc y \<le> r \<and> r < nat height \<and> j < nat width" by simp
    with vals show ?thesis by blast
  qed
  have rest: "bmp' ! i = bmp ! i"
    if "\<forall>r. y \<le> r \<and> r < nat height \<longrightarrow>
            i < pd + (nat height - 1 - r) * st \<or> pd + (nat height - 1 - r) * st + 3 * nat width \<le> i"
    for i
  proof -
    from that have "\<forall>r. Suc y \<le> r \<and> r < nat height \<longrightarrow>
            i < pd + (nat height - 1 - r) * st \<or> pd + (nat height - 1 - r) * st + 3 * nat width \<le> i"
      by simp
    with keep have "bmp' ! i = bmp1 ! i" by blast
    also have "bmp1 ! i = bmp ! i"
    proof -
      from that ylt have "i < pd + (nat height - 1 - y) * st \<or>
          pd + (nat height - 1 - y) * st + 3 * nat width \<le> i"
        unfolding nH_def by simp
      then have "i < dst \<or> dst + 3 * nat (width - int 0) \<le> i"
        unfolding dst_def k_def nH_def by simp
      with keep1 show ?thesis by blast
    qed
    finally show ?thesis .
  qed
  from run len pix rest show ?case by blast
qed

section \<open>Encoding: sizes, headers and pixels of the output\<close>

lemma unat_of_nat_32: "n < 2 ^ 32 \<Longrightarrow> unat (of_nat n :: 32 word) = n"
  by (simp add: unat_of_nat)

lemma c_div_nonneg: "0 \<le> a \<Longrightarrow> c_div a 4 = a div 4"
  by (cases "a = 0") (simp_all add: c_div_def)

lemma memset_all:
  "length (memset (map f [0..<n]) c n) = n"
  "i < n \<Longrightarrow> memset (map f [0..<n]) c n ! i = c"
  by (simp_all add: memset_def)

lemma encode_sizes:
  assumes h0: "0 \<le> height" and wh: "0 \<le> width \<or> height = 0"
    and size: "54 + stride (nat width) 3 * nat height < 2 ^ 32"
  defines "rs \<equiv> (word_of_int (c_div (width * 3 + 3) 4 * 4) :: 32 word)"
  defines "pds \<equiv> (word_of_int (uint rs * height) :: 32 word)"
  defines "st \<equiv> stride (nat width) 3"
  shows "uint rs * height = int (st * nat height)"
    and "pds = of_nat (st * nat height)"
    and "unat (54 + pds) = 54 + st * nat height"
    and "54 + pds = of_nat (54 + st * nat height)"
    and "height \<noteq> 0 \<Longrightarrow> unat rs = st"
proof -
  define nH where "nH = nat height"
  have rsH: "height \<noteq> 0 \<Longrightarrow> unat rs = st"
  proof -
    assume "height \<noteq> 0"
    with h0 wh have w: "0 \<le> width" and H1: "1 \<le> nH" unfolding nH_def by simp_all
    then have "c_div (width * 3 + 3) 4 * 4 = (width * 3 + 3) div 4 * 4"
      by (simp add: c_div_nonneg)
    also from w have "\<dots> = int (stride (nat width) 3)"
      unfolding stride_def by (simp add: zdiv_int)
    finally have rs: "rs = of_nat st" unfolding rs_def st_def by simp
    from H1 have le: "st \<le> st * nH" by (cases nH) simp_all
    from size have "st * nH < 2 ^ 32" unfolding st_def [symmetric] nH_def [symmetric] by simp
    with le have "st < 2 ^ 32" by (rule le_less_trans)
    then show "unat rs = st" unfolding rs by (rule unat_of_nat_32)
  qed
  show prod: "uint rs * height = int (st * nat height)"
  proof (cases "height = 0")
    case True
    then show ?thesis by simp
  next
    case False
    from rsH [OF this] have "uint rs = int st" by (metis uint_nat)
    with h0 show ?thesis by simp
  qed
  then show pds: "pds = of_nat (st * nat height)" unfolding pds_def by simp
  from size have lt: "st * nat height < 2 ^ 32" unfolding st_def by simp
  then have up: "unat pds = st * nat height" unfolding pds by (rule unat_of_nat_32)
  from size have "unat (54 :: 32 word) + unat pds < 2 ^ 32" unfolding up st_def by simp
  then show "unat (54 + pds) = 54 + st * nat height"
    using unat_add_lem [of 54 pds] unfolding up by simp
  show "54 + pds = of_nat (54 + st * nat height)" unfolding pds by simp
  show "height \<noteq> 0 \<Longrightarrow> unat rs = st" by (rule rsH)
qed

lemma int64_ok_small: "0 \<le> k \<Longrightarrow> k < 2 ^ 32 \<Longrightarrow> int64_ok k"
  by (simp add: int64_ok_def)

lemma encode_pixels_ok:
  fixes width height :: int
  defines "nW \<equiv> nat width" and "nH \<equiv> nat height"
  defines "st \<equiv> stride (nat width) 3"
  assumes h0: "0 \<le> height" and hr: "height < 2 ^ 31" and wh: "0 \<le> width \<or> height = 0"
    and wr: "- (2 ^ 31) \<le> width" "width < 2 ^ 31"
    and size: "54 + stride (nat width) 3 * nat height < 2 ^ 32"
    and srcb: "nat width * nat height * 4 \<le> length rgba"
    and ca: "can_alloc env (54 + stride (nat width) 3 * nat height)"
  shows "\<exists>out. encode_pixels env width height rgba = Inr out \<and> length out = 54 + st * nH \<and>
     file_header_at out 0 =
       \<lparr>fh_magic = 0x4D42, fh_file_size = of_nat (54 + st * nH), fh_reserved1 = 0,
        fh_reserved2 = 0, fh_data_offset = 54\<rparr> \<and>
     dib_header_at out 14 =
       \<lparr>dib_header_size = 40, dib_width = word_of_int width, dib_height = word_of_int height,
        dib_planes = 1, dib_bpp = 24, dib_compression = 0, dib_image_size = of_nat (st * nH),
        dib_x_pixels_per_m = 2835, dib_y_pixels_per_m = 2835, dib_colors_used = 0,
        dib_colors_important = 0\<rparr> \<and>
     (\<forall>r j. r < nH \<and> j < nW \<longrightarrow>
        out ! (54 + (nH - 1 - r) * st + 3 * j) = rgba ! (r * nW * 4 + 4 * j + 2) \<and>
        out ! (54 + (nH - 1 - r) * st + 3 * j + 1) = rgba ! (r * nW * 4 + 4 * j + 1) \<and>
        out ! (54 + (nH - 1 - r) * st + 3 * j + 2) = rgba ! (r * nW * 4 + 4 * j)) \<and>
     (\<forall>q j. q < nH \<and> 3 * nW \<le> j \<and> j < st \<longrightarrow> out ! (54 + q * st + j) = 0)"
proof -
  define rs where "rs = (word_of_int (c_div (width * 3 + 3) 4 * 4) :: 32 word)"
  define pds where "pds = (word_of_int (uint rs * height) :: 32 word)"
  define n where "n = 54 + st * nH"
  define fh where "fh = \<lparr>fh_magic = 0x4D42, fh_file_size = 54 + pds, fh_reserved1 = 0,
        fh_reserved2 = 0, fh_data_offset = 54\<rparr>"
  define dh where "dh = \<lparr>dib_header_size = 40, dib_width = word_of_int width,
        dib_height = word_of_int height,
        dib_planes = 1, dib_bpp = 24, dib_compression = 0, dib_image_size = pds,
        dib_x_pixels_per_m = 2835, dib_y_pixels_per_m = 2835, dib_colors_used = 0,
        dib_colors_important = 0\<rparr>"
  define zeros where "zeros = memset (map (junk env) [0..<n]) 0 n"
  define hdr where "hdr = store_dib_header 14 dh (store_file_header 0 fh zeros)"
  note S = encode_sizes [OF h0 wh size, folded rs_def, folded pds_def st_def, folded nH_def]
  from wr have ok1: "int64_ok (width * 3)" "int64_ok (width * 3 + 3)"
    unfolding int64_ok_def by simp_all
  from size have "int (st * nH) < 2 ^ 32" unfolding st_def nH_def
    by (metis add_lessD1 add.commute of_nat_less_numeral_power_cancel_iff)
  with of_nat_0_le_iff have ok2: "int64_ok (uint rs * height)"
    unfolding S(1) by (rule int64_ok_small)
  from size have n63: "n < 2 ^ 63" unfolding n_def st_def nH_def by simp
  with ca have ma: "malloc env (unat (54 + pds)) = Some (map (junk env) [0..<n])"
    unfolding S(3) malloc_def n_def st_def nH_def by simp
  have lz: "length zeros = n" and z0: "\<And>i. i < n \<Longrightarrow> zeros ! i = 0"
    unfolding zeros_def by (simp_all add: memset_all)
  have n54: "54 \<le> n" unfolding n_def by simp
  have lh: "length hdr = n" unfolding hdr_def by (simp add: lz)
  have hdr_hi: "hdr ! i = 0" if "54 \<le> i" "i < n" for i
    unfolding hdr_def using that
    by (simp add: nth_store_dib_header_other nth_store_file_header_other z0)
  have rows: "\<exists>out. encode_rows rgba 54 rs width height 0 hdr = Some out \<and> length out = length hdr \<and>
     (\<forall>r j. 0 \<le> r \<and> r < nH \<and> j < nW \<longrightarrow>
        out ! (54 + (nH - 1 - r) * st + 3 * j) = rgba ! (r * nW * 4 + 4 * j + 2) \<and>
        out ! (54 + (nH - 1 - r) * st + 3 * j + 1) = rgba ! (r * nW * 4 + 4 * j + 1) \<and>
        out ! (54 + (nH - 1 - r) * st + 3 * j + 2) = rgba ! (r * nW * 4 + 4 * j)) \<and>
     (\<forall>i. (\<forall>r. 0 \<le> r \<and> r < nH \<longrightarrow>
            i < 54 + (nH - 1 - r) * st \<or> 54 + (nH - 1 - r) * st + 3 * nW \<le> i) \<longrightarrow>
          out ! i = hdr ! i)"
  proof (cases "height = 0")
    case True
    then have "encode_rows rgba 54 rs width height 0 hdr = Some hdr"
      by (subst encode_rows.simps) simp
    moreover from True have "nH = 0" unfolding nH_def by simp
    ultimately show ?thesis by simp
  next
    case False
    with wh have w0: "0 \<le> width" by simp
    from wr(2) have w31: "width \<le> 2 ^ 31 - 1" by simp
    from hr have h31: "height \<le> 2 ^ 31 - 1" by simp
    have st3: "3 * nat width \<le> st" unfolding st_def using stride_ge [of "nat width" 3]
      by (simp add: ac_simps)
    from size have nw: "nat height * st < 2 ^ 32" unfolding st_def by (simp add: ac_simps)
    have dstb: "54 + nat height * st \<le> length hdr" unfolding lh n_def nH_def by (simp add: ac_simps)
    from encode_rows_ok [OF w0 w31 h31 S(5) [OF False] st3 nw srcb dstb, of 0]
    show ?thesis unfolding nW_def nH_def by simp
  qed
  then obtain out where
    run: "encode_rows rgba 54 rs width height 0 hdr = Some out"
    and lo: "length out = n"
    and vals: "\<And>r j. r < nH \<Longrightarrow> j < nW \<Longrightarrow>
        out ! (54 + (nH - 1 - r) * st + 3 * j) = rgba ! (r * nW * 4 + 4 * j + 2) \<and>
        out ! (54 + (nH - 1 - r) * st + 3 * j + 1) = rgba ! (r * nW * 4 + 4 * j + 1) \<and>
        out ! (54 + (nH - 1 - r) * st + 3 * j + 2) = rgba ! (r * nW * 4 + 4 * j)"
    and keep: "\<And>i. (\<And>r. r < nH \<Longrightarrow>
            i < 54 + (nH - 1 - r) * st \<or> 54 + (nH - 1 - r) * st + 3 * nW \<le> i) \<Longrightarrow>
          out ! i = hdr ! i"
    unfolding lh by auto
  have pd: "unat (fh_data_offset fh) = 54" by (simp add: fh_def)
  from ok1 ok2 ma run lz n54 have res: "encode_pixels env width height rgba = Inr out"
    unfolding encode_pixels_def Let_def rs_def [symmetric]
    unfolding pds_def [symmetric]
    by (simp add: fh_def [symmetric] dh_def [symmetric] zeros_def [symmetric] hdr_def [symmetric]
        S(3) n_def [symmetric] pd)
  have low: "out ! i = hdr ! i" if "i < 54" for i
    by (rule keep) (use that in simp)
  have HD0: "file_header_at out 0 = fh" "dib_header_at out 14 = dh"
    by (rule headers_of_encoded [where m = zeros and fh = fh and dh = dh];
        simp add: lz n54 low hdr_def [symmetric])+
  note HD = HD0 [unfolded fh_def dh_def, unfolded S(4), unfolded S(2)]
  have pad: "out ! (54 + q * st + j) = 0" if "q < nH" "3 * nW \<le> j" "j < st" for q j
  proof -
    have "out ! (54 + q * st + j) = hdr ! (54 + q * st + j)"
    proof (rule keep)
      fix r assume "r < nH"
      define k where "k = nH - 1 - r"
      consider "k < q" | "k = q" | "q < k" by linarith
      then show "54 + q * st + j < 54 + (nH - 1 - r) * st \<or>
          54 + (nH - 1 - r) * st + 3 * nW \<le> 54 + q * st + j"
        unfolding k_def [symmetric]
      proof cases
        case 1
        then have "Suc k * st \<le> q * st" by (intro mult_le_mono1) simp
        moreover from that have "3 * nW \<le> st" by simp
        ultimately show "54 + q * st + j < 54 + k * st \<or> 54 + k * st + 3 * nW \<le> 54 + q * st + j"
          by simp
      next
        case 2
        with that show "54 + q * st + j < 54 + k * st \<or> 54 + k * st + 3 * nW \<le> 54 + q * st + j"
          by simp
      next
        case 3
        then have "Suc q * st \<le> k * st" by (intro mult_le_mono1) simp
        with that show "54 + q * st + j < 54 + k * st \<or> 54 + k * st + 3 * nW \<le> 54 + q * st + j"
          by simp
      qed
    qed
    also have "\<dots> = 0"
    proof (rule hdr_hi)
      show "54 \<le> 54 + q * st + j" by simp
      from that(1) have "Suc q * st \<le> nH * st" by (intro mult_le_mono1) simp
      with that(3) show "54 + q * st + j < n" unfolding n_def by (simp add: ac_simps)
    qed
    finally show ?thesis .
  qed
  from res lo HD vals pad show ?thesis
    unfolding n_def by blast
qed

lemma quad_bound: "a * 3 < 2 ^ 32 \<Longrightarrow> a * 4 < 2 ^ 34" for a :: nat
  by simp

lemma int64_ok_quad:
  "0 \<le> a \<Longrightarrow> a * 4 < 2 ^ 34 \<Longrightarrow> int64_ok a" "0 \<le> a \<Longrightarrow> a * 4 < 2 ^ 34 \<Longrightarrow> int64_ok (a * 4)"
  by (simp_all add: int64_ok_def)

lemma encode_ok:
  fixes img :: image
  defines "w \<equiv> sint (img_width img)" and "h \<equiv> sint (img_height img)"
  defines "nW \<equiv> nat (sint (img_width img))" and "nH \<equiv> nat (sint (img_height img))"
  defines "st \<equiv> stride (nat (sint (img_width img))) 3"
  assumes h0: "0 \<le> h" and hr: "h < 2 ^ 31" and wh: "0 \<le> w \<or> h = 0"
    and wr: "- (2 ^ 31) \<le> w" "w < 2 ^ 31"
    and size: "54 + st * nH < 2 ^ 32"
    and srcb: "nW * nH * 4 \<le> length (img_data img)"
    and ca: "can_alloc env (54 + st * nH)"
  shows "\<exists>out. bare_bmp_encode env img = Inr out \<and> length out = 54 + st * nH \<and>
     file_header_at out 0 =
       \<lparr>fh_magic = 0x4D42, fh_file_size = of_nat (54 + st * nH), fh_reserved1 = 0,
        fh_reserved2 = 0, fh_data_offset = 54\<rparr> \<and>
     dib_header_at out 14 =
       \<lparr>dib_header_size = 40, dib_width = word_of_int w, dib_height = word_of_int h,
        dib_planes = 1, dib_bpp = 24, dib_compression = 0, dib_image_size = of_nat (st * nH),
        dib_x_pixels_per_m = 2835, dib_y_pixels_per_m = 2835, dib_colors_used = 0,
        dib_colors_important = 0\<rparr> \<and>
     (\<forall>r j. r < nH \<and> j < nW \<longrightarrow>
        out ! (54 + (nH - 1 - r) * st + 3 * j) = img_data img ! (r * nW * 4 + 4 * j + 2) \<and>
        out ! (54 + (nH - 1 - r) * st + 3 * j + 1) = img_data img ! (r * nW * 4 + 4 * j + 1) \<and>
        out ! (54 + (nH - 1 - r) * st + 3 * j + 2) = img_data img ! (r * nW * 4 + 4 * j)) \<and>
     (\<forall>q j. q < nH \<and> 3 * nW \<le> j \<and> j < st \<longrightarrow> out ! (54 + q * st + j) = 0)"
proof -
  from wh h0 have whn: "w * h = int (nW * nH)"
    unfolding nW_def nH_def w_def h_def by auto
  then have p: "w * h * 4 = int (nW * nH * 4)" by simp
  have "nW * 3 \<le> st" unfolding st_def nW_def by (rule stride_ge)
  then have "nW * 3 * nH \<le> st * nH" by (rule mult_le_mono1)
  moreover from size have "st * nH < 2 ^ 32" by simp
  ultimately have "nW * 3 * nH < 2 ^ 32" by (rule le_less_trans)
  moreover have "nW * 3 * nH = nW * nH * 3" by simp
  ultimately have "nW * nH * 3 < 2 ^ 32" by simp
  then have small: "nW * nH * 4 < 2 ^ 34" by (rule quad_bound)
  then have "int (nW * nH * 4) < 2 ^ 34" by (metis of_nat_less_numeral_power_cancel_iff)
  then have plt: "w * h * 4 < 2 ^ 34" unfolding p .
  have p0: "0 \<le> w * h * 4" unfolding p by (rule of_nat_0_le_iff)
  have wh0: "0 \<le> w * h" unfolding whn by (rule of_nat_0_le_iff)
  from wh0 plt have ok: "int64_ok (w * h)" "int64_ok (w * h * 4)"
    by (rule int64_ok_quad)+
  from p0 plt have "size_t_of_int (w * h * 4) = nat (w * h * 4)"
    by (intro size_t_of_int_nonneg) simp_all
  also have "\<dots> = nW * nH * 4" unfolding p by (rule nat_int)
  finally have sz: "size_t_of_int (w * h * 4) = nW * nH * 4" .
  with srcb have nb: "\<not> length (img_data img) < size_t_of_int (w * h * 4)" by simp
  from ok nb have "bare_bmp_encode env img = encode_pixels env w h (img_data img)"
    unfolding bare_bmp_encode_def Let_def w_def h_def by simp
  moreover note encode_pixels_ok [OF h0 hr wh wr, of "img_data img" env,
      unfolded w_def h_def, folded nW_def nH_def st_def, OF size srcb ca, folded w_def h_def]
  ultimately show ?thesis by simp
qed

lemma third_bound: "a * 3 < 2 ^ 32 \<Longrightarrow> int a < 2 ^ 31" for a :: nat
  by simp

section \<open>Decoding an encoded image\<close>

lemma length_opaque [simp]: "length (opaque xs) = length xs"
  by (induction xs rule: opaque.induct) simp_all

lemma nth_opaque:
  "x < length xs div 4 \<Longrightarrow>
     opaque xs ! (4 * x) = xs ! (4 * x) \<and>
     opaque xs ! (4 * x + 1) = xs ! (4 * x + 1) \<and>
     opaque xs ! (4 * x + 2) = xs ! (4 * x + 2) \<and>
     opaque xs ! (4 * x + 3) = 0xFF"
proof (induction xs arbitrary: x rule: opaque.induct)
  case (1 r g b a rest)
  show ?case
  proof (cases x)
    case 0
    then show ?thesis by simp
  next
    case (Suc x')
    with "1.prems" have "x' < length rest div 4" by simp
    from "1.IH" [OF this] show ?thesis unfolding Suc by (simp add: numeral_eq_Suc)
  qed
qed simp_all

lemma sint_inject_64: "sint a = sint b \<Longrightarrow> a = b" for a b :: "64 word"
  by (rule signed_word_eqI)

lemma pixel_index_split:
  fixes k nW nH :: nat
  assumes "k < nW * nH"
  shows "k = (k div nW) * nW + k mod nW" and "k div nW < nH" and "k mod nW < nW"
proof -
  from assms have pos: "0 < nW" by (cases nW) simp_all
  show "k = (k div nW) * nW + k mod nW" by simp
  from pos show "k mod nW < nW" by simp
  from assms show "k div nW < nH" by (simp add: less_mult_imp_div_less ac_simps)
qed

lemma encode_then_decode:
  fixes img :: image
  defines "w \<equiv> sint (img_width img)" and "h \<equiv> sint (img_height img)"
  defines "nW \<equiv> nat (sint (img_width img))" and "nH \<equiv> nat (sint (img_height img))"
  assumes h0: "0 \<le> h" and hr: "h < 2 ^ 31" and wh: "0 \<le> w \<or> h = 0"
    and wr: "- (2 ^ 31) \<le> w" "w < 2 ^ 31"
    and len: "length (img_data img) = nW * nH * 4"
    and small: "nW * nH * 4 < 2 ^ 31"
    and ca2: "can_alloc e2 (54 + stride nW 3 * nH)"
    and ca3: "can_alloc e3 (nW * nH * 4)"
  shows "\<exists>bmp img'. bare_bmp_encode e2 img = Inr bmp \<and> bare_bmp_decode e3 bmp = Inr img' \<and>
     img_width img' = img_width img \<and> img_height img' = img_height img \<and>
     img_data img' = opaque (img_data img) \<and>
     bmp_bpp bmp = 24 \<and> bmp_height bmp = h \<and> length bmp = 54 + stride nW 3 * nH"
proof -
  define st where "st = stride nW 3"
  have "st \<le> 4 * nW" unfolding st_def by (rule stride_3_le)
  then have "st * nH \<le> 4 * nW * nH" by (rule mult_le_mono1)
  also have "\<dots> = nW * nH * 4" by simp
  finally have sth: "st * nH < 2 ^ 31" using small by (rule le_less_trans)
  then have size: "54 + st * nH < 2 ^ 32" by simp
  from len have srcb: "nW * nH * 4 \<le> length (img_data img)" by simp
  from encode_ok [OF h0 [unfolded h_def] hr [unfolded h_def] wh [unfolded w_def h_def]
      wr [unfolded w_def], folded nW_def nH_def, folded st_def, OF size srcb ca2 [folded st_def],
      folded w_def h_def]
  obtain bmp where
    run: "bare_bmp_encode e2 img = Inr bmp" and lb: "length bmp = 54 + st * nH"
    and fh: "file_header_at bmp 0 =
       \<lparr>fh_magic = 0x4D42, fh_file_size = of_nat (54 + st * nH), fh_reserved1 = 0,
        fh_reserved2 = 0, fh_data_offset = 54\<rparr>"
    and dh: "dib_header_at bmp 14 =
       \<lparr>dib_header_size = 40, dib_width = word_of_int w, dib_height = word_of_int h,
        dib_planes = 1, dib_bpp = 24, dib_compression = 0, dib_image_size = of_nat (st * nH),
        dib_x_pixels_per_m = 2835, dib_y_pixels_per_m = 2835, dib_colors_used = 0,
        dib_colors_important = 0\<rparr>"
    and vals: "\<And>r j. r < nH \<Longrightarrow> j < nW \<Longrightarrow>
        bmp ! (54 + (nH - 1 - r) * st + 3 * j) = img_data img ! (r * nW * 4 + 4 * j + 2) \<and>
        bmp ! (54 + (nH - 1 - r) * st + 3 * j + 1) = img_data img ! (r * nW * 4 + 4 * j + 1) \<and>
        bmp ! (54 + (nH - 1 - r) * st + 3 * j + 2) = img_data img ! (r * nW * 4 + 4 * j)"
    by blast
  from fh have f: "read_u16 bmp 0 = 0x4D42" "read_u32 bmp 10 = 54"
    unfolding file_header_at_def by simp_all
  from dh have d: "read_u32 bmp 14 = 40" "read_u32 bmp 18 = word_of_int w"
    "read_u32 bmp 22 = word_of_int h" "read_u16 bmp 28 = 24" "read_u32 bmp 30 = 0"
    unfolding dib_header_at_def by simp_all
  from f(1) have magic: "bmp ! 0 = 0x42" "bmp ! 1 = 0x4D" unfolding read_u16_magic by simp_all
  have bw: "bmp_width bmp = w" unfolding bmp_width_def d(2) using wr by (rule sint_word_of_int_32)
  from h0 have "- (2 ^ 31) \<le> h" by simp
  then have bh: "bmp_height bmp = h" unfolding bmp_height_def d(3) using hr
    by (rule sint_word_of_int_32)
  have bb: "bmp_bpp bmp = 24" unfolding bmp_bpp_def d(4) by simp
  have bo: "bmp_data_offset bmp = 54" unfolding bmp_data_offset_def f(2) by simp
  from h0 have ah: "\<bar>h\<bar> = h" by simp
  from wh h0 have p: "w * h * 4 = int (nW * nH * 4)"
    unfolding nW_def nH_def w_def h_def by auto
  then have np: "nat (w * h * 4) = nW * nH * 4" by (simp only: nat_int)
  from small have "int (nW * nH * 4) < 2 ^ 31" by (metis of_nat_less_numeral_power_cancel_iff)
  then have plt: "w * h * 4 < 2 ^ 31" unfolding p .
  from h0 have hmin: "h \<noteq> - (2 ^ 31)" by simp
  have "\<exists>img'. bare_bmp_decode e3 bmp = Inr img'"
  proof (rule decode_succeeds)
    show "54 \<le> length bmp" unfolding lb by simp
    show "bmp ! 0 = 0x42" "bmp ! 1 = 0x4D" by (rule magic)+
    show "read_u32 bmp 14 = 40" "read_u32 bmp 30 = 0" by (rule d)+
    show "bmp_bpp bmp = 24 \<or> bmp_bpp bmp = 32" using bb by simp
    show "bmp_height bmp \<noteq> - (2 ^ 31)" unfolding bh by (rule hmin)
    show "0 \<le> bmp_width bmp \<or> bmp_height bmp = 0" unfolding bw bh by (rule wh)
    show "bmp_width bmp * \<bar>bmp_height bmp\<bar> * 4 < 2 ^ 31" unfolding bw bh ah by (rule plt)
    show "bmp_data_offset bmp + stride (nat (bmp_width bmp)) (bmp_bpp bmp div 8) * nat \<bar>bmp_height bmp\<bar>
        \<le> length bmp"
    proof -
      have a: "nat \<bar>bmp_height bmp\<bar> = nH" using h0 unfolding bh nH_def h_def by simp
      have b: "nat (bmp_width bmp) = nW" unfolding bw nW_def w_def ..
      have c: "bmp_bpp bmp div 8 = 3" unfolding bb by simp
      show ?thesis unfolding a b c bo lb st_def by (rule le_refl)
    qed
    show "can_alloc e3 (nat (bmp_width bmp * \<bar>bmp_height bmp\<bar> * 4))"
      unfolding bw bh ah np by (rule ca3)
  qed
  then obtain img' where dec: "bare_bmp_decode e3 bmp = Inr img'" by blast
  note D = decode_Inr [OF dec, unfolded bw bh ah bb]
  from D(5) have wq: "img_width img' = img_width img" unfolding w_def by (rule sint_inject_64)
  from D(6) have hq: "img_height img' = img_height img" unfolding h_def by (rule sint_inject_64)
  from D(7) have l': "length (img_data img') = 4 * (nW * nH)" unfolding np by simp
  have "img_data img' = opaque (img_data img)"
  proof (rule list_eq_quads [where n = "nW * nH"])
    show "length (img_data img') = 4 * (nW * nH)" by (rule l')
    show "length (opaque (img_data img)) = 4 * (nW * nH)" using len by simp
    fix k assume k: "k < nW * nH"
    define y where "y = k div nW"
    define x where "x = k mod nW"
    note S = pixel_index_split [OF k, folded y_def x_def]
    from S(2) have y': "y < nat h" unfolding nH_def h_def .
    from S(3) have x': "x < nat w" unfolding nW_def w_def .
    have sr: "src_row h y = nH - 1 - y" using h0 unfolding src_row_def nH_def h_def by simp
    have pa: "pixel_addr bmp (src_row h y) x = 54 + (nH - 1 - y) * st + 3 * x"
      unfolding pixel_addr_def sr bo bw bb st_def nW_def w_def by simp
    have kq: "4 * (y * nat w + x) = 4 * k" "y * nW * 4 + 4 * x = 4 * k"
      using S(1) unfolding nW_def w_def by simp_all
    note Dp = D(8) [OF y' x', unfolded pa kq(1)]
    note V = vals [OF S(2) S(3), unfolded kq(2)]
    from k have "k < length (img_data img) div 4" unfolding len by simp
    note O = nth_opaque [OF this]
    from Dp V O show "img_data img' ! (4 * k) = opaque (img_data img) ! (4 * k) \<and>
        img_data img' ! (4 * k + 1) = opaque (img_data img) ! (4 * k + 1) \<and>
        img_data img' ! (4 * k + 2) = opaque (img_data img) ! (4 * k + 2) \<and>
        img_data img' ! (4 * k + 3) = opaque (img_data img) ! (4 * k + 3)"
      by simp
  qed
  with run dec wq hq bb bh lb show ?thesis unfolding st_def by blast
qed

lemma decoded_image_shape:
  assumes dec: "bare_bmp_decode env bs = Inr img"
  defines "w \<equiv> sint (img_width img)" and "h \<equiv> sint (img_height img)"
  shows "0 \<le> h" and "h < 2 ^ 31" and "0 \<le> w \<or> h = 0" and "- (2 ^ 31) \<le> w" and "w < 2 ^ 31"
    and "length (img_data img) = nat w * nat h * 4" and "nat w * nat h * 4 < 2 ^ 31"
proof -
  note D = decode_Inr [OF dec]
  have wq: "w = bmp_width bs" unfolding w_def D(5) ..
  have hq: "h = \<bar>bmp_height bs\<bar>" unfolding h_def D(6) ..
  show h0: "0 \<le> h" unfolding hq by simp
  have "- (2 ^ 31) \<le> bmp_height bs" "bmp_height bs < 2 ^ 31"
    unfolding bmp_height_def by (rule sint_32_range)+
  with D(1) show "h < 2 ^ 31" unfolding hq by simp
  show "- (2 ^ 31) \<le> w" "w < 2 ^ 31" unfolding wq bmp_width_def by (rule sint_32_range)+
  from D(2) have p0: "0 \<le> w * h * 4" unfolding wq hq .
  show wh: "0 \<le> w \<or> h = 0"
  proof (rule disjCI)
    assume "h \<noteq> 0"
    with h0 have "0 < h" by simp
    with p0 show "0 \<le> w" by (simp add: zero_le_mult_iff)
  qed
  from wh h0 have p: "w * h * 4 = int (nat w * nat h * 4)" by auto
  then have np: "nat (w * h * 4) = nat w * nat h * 4" by (simp only: nat_int)
  from D(7) show "length (img_data img) = nat w * nat h * 4" unfolding wq [symmetric] hq [symmetric] np .
  from D(3) have "int (nat w * nat h * 4) < 2 ^ 31" unfolding wq [symmetric] hq [symmetric] p .
  then show "nat w * nat h * 4 < 2 ^ 31" by (metis of_nat_less_numeral_power_cancel_iff)
qed

lemma decoded_24_opaque:
  assumes dec: "bare_bmp_decode env bs = Inr img" and bpp: "bmp_bpp bs = 24"
  shows "opaque (img_data img) = img_data img"
proof -
  note D = decode_Inr [OF dec]
  note S = decoded_image_shape [OF dec]
  define nW where "nW = nat (bmp_width bs)"
  define nH where "nH = nat \<bar>bmp_height bs\<bar>"
  from S(6) have len: "length (img_data img) = 4 * (nH * nW)"
    unfolding D(5,6) nW_def nH_def by simp
  show ?thesis
  proof (rule list_eq_quads [where n = "nH * nW"])
    show "length (opaque (img_data img)) = 4 * (nH * nW)" using len by simp
    show "length (img_data img) = 4 * (nH * nW)" by (rule len)
    fix k assume "k < nH * nW"
    then have k: "k < nW * nH" by (simp add: ac_simps)
    define y where "y = k div nW"
    define x where "x = k mod nW"
    note I = pixel_index_split [OF k, folded y_def x_def]
    have kq: "4 * (y * nat (bmp_width bs) + x) = 4 * k" using I(1) unfolding nW_def by simp
    from D(8) [OF I(2) [unfolded nH_def] I(3) [unfolded nW_def], unfolded kq] bpp
    have a: "img_data img ! (4 * k + 3) = 0xFF" by simp
    from k have "k < length (img_data img) div 4" unfolding len by (simp add: ac_simps)
    from nth_opaque [OF this] a
    show "opaque (img_data img) ! (4 * k) = img_data img ! (4 * k) \<and>
        opaque (img_data img) ! (4 * k + 1) = img_data img ! (4 * k + 1) \<and>
        opaque (img_data img) ! (4 * k + 2) = img_data img ! (4 * k + 2) \<and>
        opaque (img_data img) ! (4 * k + 3) = img_data img ! (4 * k + 3)"
      by simp
  qed
qed

section \<open>Validation before allocation\<close>

lemma encode_buffer_too_small:
  fixes img :: image
  defines "w \<equiv> sint (img_width img)" and "h \<equiv> sint (img_height img)"
  assumes ok: "int64_ok (w * h)" "int64_ok (w * h * 4)"
    and short: "int (length (img_data img)) < w * h * 4"
  shows "bare_bmp_encode env img = Inl BufferTooSmall"
proof -
  from short have p0: "0 \<le> w * h * 4" by simp
  moreover from ok(2) have "w * h * 4 < 2 ^ 64" unfolding int64_ok_def by simp
  ultimately have "size_t_of_int (w * h * 4) = nat (w * h * 4)" by (rule size_t_of_int_nonneg)
  with short have "length (img_data img) < size_t_of_int (w * h * 4)" by simp
  with ok show ?thesis unfolding bare_bmp_encode_def Let_def w_def h_def by simp
qed

lemma decode_validation_ignores_allocator:
  assumes "bare_bmp_decode env bs = Inl e"
    and "e \<in> {TooSmall, BadMagic, UnsupportedHeader, UnsupportedCompression, UnsupportedBitDepth,
           TruncatedData}"
  shows "bare_bmp_decode env' bs = Inl e"
  using assms unfolding bare_bmp_decode_checks decode_pixels_unfold
  by (auto split: if_splits option.splits)

lemma encode_validation_ignores_allocator:
  assumes "bare_bmp_encode env img = Inl BufferTooSmall"
  shows "bare_bmp_encode env' img = Inl BufferTooSmall"
  using assms unfolding bare_bmp_encode_def encode_pixels_def Let_def
  by (auto split: if_splits option.splits)

section \<open>The pixel-extent check without wrap-around\<close>

lemma extent_check_exact:
  assumes hdr: "54 \<le> length bs" "bs ! 0 = 0x42" "bs ! 1 = 0x4D" "read_u32 bs 14 = 40"
      "read_u32 bs 30 = 0" "bmp_bpp bs = 24 \<or> bmp_bpp bs = 32"
    and nmin: "bmp_height bs \<noteq> - (2 ^ 31)"
    and w: "0 \<le> bmp_width bs"
    and nowrap: "nat (bmp_width bs) * (bmp_bpp bs div 8) + 3 < 2 ^ 32"
      "bmp_data_offset bs + stride (nat (bmp_width bs)) (bmp_bpp bs div 8) * nat \<bar>bmp_height bs\<bar>
         < 2 ^ 32"
  shows "bare_bmp_decode env bs = Inl TruncatedData \<longleftrightarrow>
     length bs < bmp_data_offset bs +
        stride (nat (bmp_width bs)) (bmp_bpp bs div 8) * nat \<bar>bmp_height bs\<bar>"
proof -
  define fh where "fh = file_header_at bs 0"
  define dh where "dh = dib_header_at bs 14"
  define wd where "wd = dib_width dh"
  define h where "h = dib_height dh"
  define abh where "abh = (if sint h < 0 then - h else h)"
  define n where "n = (ucast (dib_bpp dh div 8) :: 32 word)"
  define rs where "rs = (wd * n + 3) div 4 * 4"
  define nW where "nW = nat (bmp_width bs)"
  define nH where "nH = nat \<bar>bmp_height bs\<bar>"
  define N where "N = bmp_bpp bs div 8"
  note U = decode_pixels_unfold [of env bs fh dh, folded wd_def h_def, folded abh_def n_def,
      folded rs_def]
  have flds: "sint wd = bmp_width bs" "sint h = bmp_height bs" "unat (fh_data_offset fh) = bmp_data_offset bs"
    "unat (dib_bpp dh) = bmp_bpp bs"
    unfolding wd_def h_def dh_def fh_def header_fields bmp_width_def bmp_height_def
      bmp_data_offset_def bmp_bpp_def by simp_all
  from hdr(6) have bpp: "dib_bpp dh = 24 \<or> dib_bpp dh = 32"
    unfolding dh_def header_fields bpp_word_nat .
  then have nN: "unat n = N" unfolding n_def N_def flds(4) [symmetric] by auto
  from nmin have sabh: "sint abh = \<bar>bmp_height bs\<bar>"
    unfolding abh_def flds(2) [symmetric] by (rule sint_abs_height)
  have uabh: "unat abh = nH"
    unfolding nH_def sabh [symmetric] by (rule unat_nonneg_sint_32) (simp add: sabh)
  from w have uw: "unat wd = nW"
    unfolding nW_def flds(1) [symmetric] by (rule unat_nonneg_sint_32)
  from nowrap(1) have "unat wd * unat n + 3 < 2 ^ 32" unfolding uw nN nW_def N_def .
  then have urs: "unat rs = stride nW N"
    unfolding rs_def uw [symmetric] nN [symmetric] by (rule row_size_exact)
  from nowrap(2) have nw: "bmp_data_offset bs + stride nW N * nH < 2 ^ 32"
    unfolding nW_def nH_def N_def .
  then have "unat rs * unat abh < 2 ^ 32" unfolding urs uabh by simp
  then have um: "unat (rs * abh) = stride nW N * nH"
    using unat_mult_lem [of rs abh] unfolding urs uabh by simp
  from nw have "unat (fh_data_offset fh) + unat (rs * abh) < 2 ^ 32" unfolding um flds(3) by simp
  then have ext: "unat (fh_data_offset fh + rs * abh) = bmp_data_offset bs + stride nW N * nH"
    using unat_add_lem [of "fh_data_offset fh" "rs * abh"] unfolding um flds(3) by simp
  from hdr have "bare_bmp_decode env bs = decode_pixels env bs fh dh"
    unfolding bare_bmp_decode_checks read_u16_magic bpp_word_nat fh_def dh_def by auto
  also from nmin have "\<dots> = Inl TruncatedData \<longleftrightarrow>
      length bs < bmp_data_offset bs + stride nW N * nH"
    unfolding U ext flds(2) by (simp split: option.splits)
  finally show ?thesis unfolding nW_def nH_def N_def .
qed

section \<open>The order of the header checks\<close>

text \<open>
  Claim C4. Decode checks, in this order, the length (at least 54 bytes, else
  \<open>TooSmall\<close>), the magic bytes \<open>0x42, 0x4D\<close> (\<open>BadMagic\<close>), the DIB header size 40
  (\<open>UnsupportedHeader\<close>), the compression 0 (\<open>UnsupportedCompression\<close>) and the bit depth
  24 or 32 (\<open>UnsupportedBitDepth\<close>), and returns the error of the first check that fails,
  whatever the later fields hold; an input of at least 54 bytes that does not start with
  \<open>0x42, 0x4D\<close> fails with \<open>BadMagic\<close> whatever else it contains.
\<close>

theorem decode_check_order:
  "(length bs < 54 \<longrightarrow> bare_bmp_decode env bs = Inl TooSmall) \<and>
   (54 \<le> length bs \<and> (bs ! 0 \<noteq> 0x42 \<or> bs ! 1 \<noteq> 0x4D) \<longrightarrow>
      bare_bmp_decode env bs = Inl BadMagic) \<and>
   (54 \<le> length bs \<and> bs ! 0 = 0x42 \<and> bs ! 1 = 0x4D \<and> read_u32 bs 14 \<noteq> 40 \<longrightarrow>
      bare_bmp_decode env bs = Inl UnsupportedHeader) \<and>
   (54 \<le> length bs \<and> bs ! 0 = 0x42 \<and> bs ! 1 = 0x4D \<and> read_u32 bs 14 = 40 \<and>
    read_u32 bs 30 \<noteq> 0 \<longrightarrow>
      bare_bmp_decode env bs = Inl UnsupportedCompression) \<and>
   (54 \<le> length bs \<and> bs ! 0 = 0x42 \<and> bs ! 1 = 0x4D \<and> read_u32 bs 14 = 40 \<and>
    read_u32 bs 30 = 0 \<and> read_u16 bs 28 \<noteq> 24 \<and> read_u16 bs 28 \<noteq> 32 \<longrightarrow>
      bare_bmp_decode env bs = Inl UnsupportedBitDepth) \<and>
   (54 \<le> length bs \<and> bs ! 0 = 0x42 \<and> bs ! 1 = 0x4D \<and> read_u32 bs 14 = 40 \<and>
    read_u32 bs 30 = 0 \<and> (read_u16 bs 28 = 24 \<or> read_u16 bs 28 = 32) \<longrightarrow>
      bare_bmp_decode env bs \<notin>
        {Inl TooSmall, Inl BadMagic, Inl UnsupportedHeader, Inl UnsupportedCompression,
         Inl UnsupportedBitDepth})"
  unfolding bare_bmp_decode_checks read_u16_magic
  using decode_pixels_not_header_error [of env bs "file_header_at bs 0" "dib_header_at bs 14"]
  by auto

theorem decode_check_order_witness:
  "bare_bmp_decode env0 [] = Inl TooSmall \<and>
   bare_bmp_decode env0 ((bmp_file 54 1 1 24 [0, 0, 255, 0])[0 := 0]) = Inl BadMagic \<and>
   bare_bmp_decode env0 ((bmp_file 54 1 1 24 [0, 0, 255, 0])[0 := 0, 14 := 12, 30 := 1, 28 := 8]) = Inl BadMagic \<and>
   bare_bmp_decode env0 ((bmp_file 54 1 1 24 [0, 0, 255, 0])[14 := 12, 30 := 1, 28 := 8]) = Inl UnsupportedHeader \<and>
   bare_bmp_decode env0 ((bmp_file 54 1 1 24 [0, 0, 255, 0])[30 := 1, 28 := 8]) = Inl UnsupportedCompression \<and>
   bare_bmp_decode env0 ((bmp_file 54 1 1 24 [0, 0, 255, 0])[28 := 8]) = Inl UnsupportedBitDepth \<and>
   bare_bmp_decode env0 (bmp_file 54 1 1 24 [0, 0, 255, 0]) \<notin>
        {Inl TooSmall, Inl BadMagic, Inl UnsupportedHeader, Inl UnsupportedCompression,
         Inl UnsupportedBitDepth}"
  using decode_check_order [of "[]" env0]
    decode_check_order [of "(bmp_file 54 1 1 24 [0, 0, 255, 0])[0 := 0]" env0]
    decode_check_order [of "(bmp_file 54 1 1 24 [0, 0, 255, 0])[0 := 0, 14 := 12, 30 := 1, 28 := 8]" env0]
    decode_check_order [of "(bmp_file 54 1 1 24 [0, 0, 255, 0])[14 := 12, 30 := 1, 28 := 8]" env0]
    decode_check_order [of "(bmp_file 54 1 1 24 [0, 0, 255, 0])[30 := 1, 28 := 8]" env0]
    decode_check_order [of "(bmp_file 54 1 1 24 [0, 0, 255, 0])[28 := 8]" env0]
    decode_check_order [of "bmp_file 54 1 1 24 [0, 0, 255, 0]" env0]
  unfolding bmp_file_1x1
  by (simp add: read_u16_def read_u32_def)

section \<open>Channel order of a decoded pixel\<close>

text \<open>
  Claim C2. On every input on which decode succeeds, output pixel \<open>x\<close> of output row \<open>y\<close>
  is produced from the \<open>bytes_per_pixel\<close> source bytes at the pixel's address, which lie
  inside the input: they are read in the order B, G, R and, for 32 bits, A, and written
  as R, G, B, A. For a 24-bit source the alpha byte written is 255, for a 32-bit source
  it is the source's fourth byte.
\<close>

theorem decode_pixel_channels:
  assumes dec: "bare_bmp_decode env bs = Inr img"
    and y: "y < nat (sint (img_height img))" and x: "x < nat (sint (img_width img))"
  defines "s \<equiv> pixel_addr bs (src_row (bmp_height bs) y) x"
    and "d \<equiv> 4 * (y * nat (sint (img_width img)) + x)"
  shows "s + bmp_bpp bs div 8 \<le> length bs \<and> d + 3 < length (img_data img) \<and>
     img_data img ! d = bs ! (s + 2) \<and>
     img_data img ! (d + 1) = bs ! (s + 1) \<and>
     img_data img ! (d + 2) = bs ! s \<and>
     (bmp_bpp bs = 24 \<and> img_data img ! (d + 3) = 0xFF \<or>
      bmp_bpp bs = 32 \<and> img_data img ! (d + 3) = bs ! (s + 3))"
proof -
  note D = decode_Inr [OF dec]
  note P = decode_Inr_pixels [OF dec]
  define nW where "nW = nat (bmp_width bs)"
  define nH where "nH = nat \<bar>bmp_height bs\<bar>"
  from y x have y': "y < nH" and x': "x < nW" unfolding nW_def nH_def D(5,6) by simp_all
  from x' have "0 \<le> bmp_width bs" unfolding nW_def by simp
  then have "bmp_width bs * \<bar>bmp_height bs\<bar> * 4 = int (nW * nH * 4)"
    unfolding nW_def nH_def by simp
  then have len: "length (img_data img) = nW * nH * 4"
    unfolding D(7) by (simp only: nat_int)
  from y' have "Suc y * nW \<le> nH * nW" by (intro mult_le_mono1) simp
  then have le: "y * nW + nW \<le> nW * nH" by (simp add: ac_simps)
  from x' have "4 * (y * nW + x) + 3 < (y * nW + nW) * 4" by simp
  also from le have "\<dots> \<le> nW * nH * 4" by (rule mult_le_mono1)
  finally have dlt: "d + 3 < length (img_data img)"
    unfolding len d_def D(5) nW_def .
  from D(8) [OF y' [unfolded nH_def] x' [unfolded nW_def]] P(5) dlt
  show ?thesis
    unfolding s_def d_def D(5,6) by auto
qed

theorem decode_pixel_channels_witness:
  "bare_bmp_decode env0 (bmp_file 54 1 1 24 [0, 0, 255, 0]) =
     Inr \<lparr>img_width = 1, img_height = 1, img_data = [255, 0, 0, 255]\<rparr> \<and>
   [255, 0, 0, 255 :: byte] ! 0 = bmp_file 54 1 1 24 [0, 0, 255, 0] ! (54 + 2) \<and>
   [255, 0, 0, 255 :: byte] ! 3 = 0xFF \<and>
   bare_bmp_decode env0 (bmp_file 54 1 1 32 [10, 20, 30, 128]) =
     Inr \<lparr>img_width = 1, img_height = 1, img_data = [30, 20, 10, 128]\<rparr> \<and>
   [30, 20, 10, 128 :: byte] ! 3 = bmp_file 54 1 1 32 [10, 20, 30, 128] ! (54 + 3)"
  using decode_pixel_channels [OF decode_1x1_24, of 0 0]
    decode_pixel_channels [OF decode_1x1_32, of 0 0]
    decode_1x1_24 decode_1x1_32
  by (simp add: pixel_addr_def src_row_def stride_def bmp_file_geometry bmp_file_nth_pixels
      bmp_file_length)

section \<open>Row order of a decoded image\<close>

text \<open>
  Claim C3. On every input on which decode succeeds, with \<open>abs_height\<close> the absolute value
  of the height field (the returned height) and top-down meaning a negative height field,
  each output row \<open>y\<close> below \<open>abs_height\<close> is the conversion of source row \<open>y\<close> when the
  file is top-down and of source row \<open>abs_height - 1 - y\<close> otherwise: the returned buffer
  is in top-down row order.
\<close>

theorem decode_row_order:
  assumes dec: "bare_bmp_decode env bs = Inr img" and y: "y < nat (sint (img_height img))"
  shows "output_row img y =
     (if bmp_bpp bs = 32 then bgra_to_rgba else bgr_to_rgba)
       (source_row bs (if bmp_height bs < 0 then y else nat (sint (img_height img)) - 1 - y))"
proof -
  note D = decode_Inr [OF dec]
  note P = decode_Inr_pixels [OF dec]
  define nW where "nW = nat (bmp_width bs)"
  define nH where "nH = nat \<bar>bmp_height bs\<bar>"
  define N where "N = bmp_bpp bs div 8"
  define r where "r = (if bmp_height bs < 0 then y else nH - 1 - y)"
  define st where "st = stride nW N"
  define off where "off = bmp_data_offset bs"
  define src where "src = source_row bs r"
  define out where "out = output_row img y"
  have w: "nat (sint (img_width img)) = nW" unfolding D(5) nW_def ..
  have h: "nat (sint (img_height img)) = nH" unfolding D(6) nH_def ..
  from y have y': "y < nH" unfolding h .
  have src_def': "src = take (nW * N) (drop (off + r * st) bs)"
    unfolding src_def source_row_def nW_def N_def st_def off_def ..
  have out_def': "out = take (4 * nW) (drop (y * (4 * nW)) (img_data img))"
    unfolding out_def output_row_def w ..
  have goal: "out = (if bmp_bpp bs = 32 then bgra_to_rgba else bgr_to_rgba) src"
  proof (cases "nW = 0")
    case True
    then show ?thesis unfolding out_def' src_def' by simp
  next
    case False
    then have Wpos: "0 \<le> bmp_width bs" unfolding nW_def by simp
    then have "bmp_width bs * \<bar>bmp_height bs\<bar> * 4 = int (nW * nH * 4)"
      unfolding nW_def nH_def by simp
    then have len: "length (img_data img) = nW * nH * 4"
      unfolding D(7) by (simp only: nat_int)
    from y' have "Suc y * nW \<le> nH * nW" by (intro mult_le_mono1) simp
    then have "(y * nW + nW) * 4 \<le> nW * nH * 4" by (simp add: ac_simps)
    then have room: "y * (4 * nW) + 4 * nW \<le> length (img_data img)"
      unfolding len by (simp add: ac_simps)
    then have lout: "length out = 4 * nW" unfolding out_def' by simp
    have pa: "pixel_addr bs (src_row (bmp_height bs) y) x = off + r * st + x * N" for x
      unfolding pixel_addr_def src_row_def r_def st_def off_def nW_def nH_def N_def by simp
    note px = D(8) [OF y' [unfolded nH_def], folded nW_def, unfolded pa, folded N_def]
    from False have "nW - 1 < nW" by simp
    from px [OF this] have "off + r * st + ((nW - 1) * N + N) \<le> length bs"
      by (simp add: add.assoc)
    moreover have "(nW - 1) * N + N = nW * N" using False by (cases nW) simp_all
    ultimately have inb: "off + r * st + nW * N \<le> length bs" by (simp only:)
    then have lsrc: "length src = nW * N" unfolding src_def' by simp
    have onth: "out ! k = img_data img ! (y * (4 * nW) + k)" if "k < 4 * nW" for k
      unfolding out_def' using that room by simp
    have snth: "src ! k = bs ! (off + r * st + k)" if "k < nW * N" for k
      unfolding src_def' using that inb by simp
    have idx: "y * (4 * nW) + 4 * x = 4 * (y * nW + x)" for x by simp
    from P(5) show ?thesis
    proof
      assume b24: "bmp_bpp bs = 24"
      then have N3: "N = 3" unfolding N_def by simp
      have "out = bgr_to_rgba src"
      proof (rule list_eq_quads [where n = nW])
        show "length out = 4 * nW" by (rule lout)
        show "length (bgr_to_rgba src) = 4 * nW"
          unfolding length_bgr_to_rgba lsrc N3 by simp
        fix x assume x: "x < nW"
        then have "x < length src div 3" unfolding lsrc N3 by simp
        note B = nth_bgr_to_rgba [OF this]
        from x have k: "4 * x < 4 * nW" "4 * x + 1 < 4 * nW" "4 * x + 2 < 4 * nW" "4 * x + 3 < 4 * nW"
          by simp_all
        from x have j: "3 * x < nW * N" "3 * x + 1 < nW * N" "3 * x + 2 < nW * N"
          unfolding N3 by simp_all
        from px [OF x] b24 show "out ! (4 * x) = bgr_to_rgba src ! (4 * x) \<and>
            out ! (4 * x + 1) = bgr_to_rgba src ! (4 * x + 1) \<and>
            out ! (4 * x + 2) = bgr_to_rgba src ! (4 * x + 2) \<and>
            out ! (4 * x + 3) = bgr_to_rgba src ! (4 * x + 3)"
          unfolding B [THEN conjunct1] B [THEN conjunct2, THEN conjunct1]
            B [THEN conjunct2, THEN conjunct2, THEN conjunct1]
            B [THEN conjunct2, THEN conjunct2, THEN conjunct2]
            onth [OF k(1)] onth [OF k(2)] onth [OF k(3)] onth [OF k(4)]
            snth [OF j(1)] snth [OF j(2)] snth [OF j(3)] N3
          by (simp add: ac_simps)
      qed
      with b24 show ?thesis by simp
    next
      assume b32: "bmp_bpp bs = 32"
      then have N4: "N = 4" unfolding N_def by simp
      have "out = bgra_to_rgba src"
      proof (rule list_eq_quads [where n = nW])
        show "length out = 4 * nW" by (rule lout)
        show "length (bgra_to_rgba src) = 4 * nW"
          unfolding length_bgra_to_rgba lsrc N4 by simp
        fix x assume x: "x < nW"
        then have "x < length src div 4" unfolding lsrc N4 by simp
        note B = nth_bgra_to_rgba [OF this]
        from x have k: "4 * x < 4 * nW" "4 * x + 1 < 4 * nW" "4 * x + 2 < 4 * nW" "4 * x + 3 < 4 * nW"
          by simp_all
        from x have j: "4 * x < nW * N" "4 * x + 1 < nW * N" "4 * x + 2 < nW * N" "4 * x + 3 < nW * N"
          unfolding N4 by simp_all
        from px [OF x] b32 show "out ! (4 * x) = bgra_to_rgba src ! (4 * x) \<and>
            out ! (4 * x + 1) = bgra_to_rgba src ! (4 * x + 1) \<and>
            out ! (4 * x + 2) = bgra_to_rgba src ! (4 * x + 2) \<and>
            out ! (4 * x + 3) = bgra_to_rgba src ! (4 * x + 3)"
          unfolding B [THEN conjunct1] B [THEN conjunct2, THEN conjunct1]
            B [THEN conjunct2, THEN conjunct2, THEN conjunct1]
            B [THEN conjunct2, THEN conjunct2, THEN conjunct2]
            onth [OF k(1)] onth [OF k(2)] onth [OF k(3)] onth [OF k(4)]
            snth [OF j(1)] snth [OF j(2)] snth [OF j(3)] snth [OF j(4)] N4
          by (simp add: ac_simps)
      qed
      with b32 show ?thesis by simp
    qed
  qed
  then show ?thesis unfolding out_def src_def r_def h .
qed

theorem decode_row_order_witness:
  "bare_bmp_decode env0 (bmp_file 54 2 2 24 [1, 2, 3, 4, 5, 6, 0, 0, 7, 8, 9, 10, 11, 12, 0, 0]) =
     Inr \<lparr>img_width = 2, img_height = 2,
          img_data = [9, 8, 7, 255, 12, 11, 10, 255, 3, 2, 1, 255, 6, 5, 4, 255]\<rparr> \<and>
   output_row \<lparr>img_width = 2, img_height = 2,
          img_data = [9, 8, 7, 255, 12, 11, 10, 255, 3, 2, 1, 255, 6, 5, 4, 255]\<rparr> 0 =
     bgr_to_rgba (source_row
       (bmp_file 54 2 2 24 [1, 2, 3, 4, 5, 6, 0, 0, 7, 8, 9, 10, 11, 12, 0, 0]) 1) \<and>
   source_row (bmp_file 54 2 2 24 [1, 2, 3, 4, 5, 6, 0, 0, 7, 8, 9, 10, 11, 12, 0, 0]) 1 =
     [7, 8, 9, 10, 11, 12] \<and>
   bare_bmp_decode env0 (bmp_file 54 2 (- 2) 24 [1, 2, 3, 4, 5, 6, 0, 0, 7, 8, 9, 10, 11, 12, 0, 0]) =
     Inr \<lparr>img_width = 2, img_height = 2,
          img_data = [3, 2, 1, 255, 6, 5, 4, 255, 9, 8, 7, 255, 12, 11, 10, 255]\<rparr> \<and>
   output_row \<lparr>img_width = 2, img_height = 2,
          img_data = [3, 2, 1, 255, 6, 5, 4, 255, 9, 8, 7, 255, 12, 11, 10, 255]\<rparr> 0 =
     bgr_to_rgba (source_row
       (bmp_file 54 2 (- 2) 24 [1, 2, 3, 4, 5, 6, 0, 0, 7, 8, 9, 10, 11, 12, 0, 0]) 0) \<and>
   source_row (bmp_file 54 2 (- 2) 24 [1, 2, 3, 4, 5, 6, 0, 0, 7, 8, 9, 10, 11, 12, 0, 0]) 0 =
     [1, 2, 3, 4, 5, 6]"
  using decode_row_order [OF decode_2x2_bottom_up, of 0]
    decode_row_order [OF decode_2x2_top_down, of 0]
    decode_2x2_bottom_up decode_2x2_top_down
    bmp_file_drop [of 8 54 2 2 24 "[1, 2, 3, 4, 5, 6, 0, 0, 7, 8, 9, 10, 11, 12, 0, 0]"]
    bmp_file_drop [of 0 54 2 "- 2" 24 "[1, 2, 3, 4, 5, 6, 0, 0, 7, 8, 9, 10, 11, 12, 0, 0]"]
  by (simp add: source_row_def bmp_file_geometry stride_def)

section \<open>Dimensions of a decoded image\<close>

text \<open>
  Claim C6, as amended. On every input whose height field is not the least 32-bit
  integer, for which width times absolute height times 4 lies in the range of
  \<^verbatim>\<open>int32_t\<close>, and on which decode succeeds, the returned width is the signed width
  field as stored (it may be zero or negative: the decoder does not check it), the
  returned height is the absolute value of the height field (it may be zero), and the
  returned buffer has exactly width times height times 4 bytes. Both returned numbers
  are positive when the width field is positive and the height field is not zero.

  The two conditions on the fields leave out the inputs on which \<^verbatim>\<open>-height\<close> or
  \<^verbatim>\<open>width * abs_height * 4\<close> overflows \<^verbatim>\<open>int32_t\<close>: there the behaviour is undefined,
  and a binding in which the overflow wraps returns a negative height, or a buffer whose
  length is not width times height times 4.
\<close>

theorem decode_dimensions:
  assumes dec: "bare_bmp_decode env bs = Inr img"
    and "bmp_height bs \<noteq> - (2 ^ 31)"
    and "- (2 ^ 31) \<le> bmp_width bs * \<bar>bmp_height bs\<bar> * 4"
    and "bmp_width bs * \<bar>bmp_height bs\<bar> * 4 < 2 ^ 31"
  shows "sint (img_width img) = bmp_width bs \<and>
     sint (img_height img) = \<bar>bmp_height bs\<bar> \<and>
     0 \<le> sint (img_height img) \<and>
     int (length (img_data img)) = sint (img_width img) * sint (img_height img) * 4 \<and>
     (0 < bmp_width bs \<and> bmp_height bs \<noteq> 0 \<longrightarrow>
        0 < sint (img_width img) \<and> 0 < sint (img_height img))"
proof -
  note D = decode_Inr [OF dec]
  from D(2) have "int (nat (bmp_width bs * \<bar>bmp_height bs\<bar> * 4)) = bmp_width bs * \<bar>bmp_height bs\<bar> * 4"
    by simp
  then show ?thesis unfolding D(5,6,7) by simp
qed

theorem decode_dimensions_witness:
  "bare_bmp_decode env0 (bmp_file 54 2 (- 2) 24 [1, 2, 3, 4, 5, 6, 0, 0, 7, 8, 9, 10, 11, 12, 0, 0]) =
     Inr \<lparr>img_width = 2, img_height = 2,
          img_data = [3, 2, 1, 255, 6, 5, 4, 255, 9, 8, 7, 255, 12, 11, 10, 255]\<rparr> \<and>
   bmp_width (bmp_file 54 2 (- 2) 24 [1, 2, 3, 4, 5, 6, 0, 0, 7, 8, 9, 10, 11, 12, 0, 0]) = 2 \<and>
   bmp_height (bmp_file 54 2 (- 2) 24 [1, 2, 3, 4, 5, 6, 0, 0, 7, 8, 9, 10, 11, 12, 0, 0]) = - 2 \<and>
   int (length [3, 2, 1, 255, 6, 5, 4, 255, 9, 8, 7, 255, 12, 11, 10, 255 :: byte]) = 2 * 2 * 4"
  using decode_dimensions [OF decode_2x2_top_down] decode_2x2_top_down
  by (simp add: bmp_file_geometry)

theorem decode_dimensions_counterexample:
  "bare_bmp_decode env0 (bmp_file 54 0 0 24 []) =
     Inr \<lparr>img_width = 0, img_height = 0, img_data = []\<rparr> \<and>
   bare_bmp_decode env0 (bmp_file 54 0xFFFFFFFF 0 24 []) =
     Inr \<lparr>img_width = 0xFFFFFFFFFFFFFFFF, img_height = 0, img_data = []\<rparr> \<and>
   sint (0xFFFFFFFFFFFFFFFF :: 64 word) = - 1"
  using decode_0x0 decode_neg_width by simp

section \<open>The pixel-extent check wraps around\<close>

text \<open>
  Claim C5 says that decode fails with \<open>TruncatedData\<close> exactly when the data offset plus
  stride times absolute height, in exact arithmetic, exceeds the input length. The source
  computes the stride and the extent in \<^verbatim>\<open>uint32_t\<close>: for the 54-byte header declaring a
  32-bit image of width \<open>2 ^ 30\<close> and height 1, the exact extent is \<open>54 + 2 ^ 32\<close>, far
  beyond the 54 bytes of input, but the stride wraps to 0, the check passes, and the run
  goes on into undefined behaviour instead of failing with \<open>TruncatedData\<close>.
\<close>

theorem extent_check_wraps:
  "bare_bmp_decode env (bmp_file 54 0x40000000 1 32 []) = Inl UndefinedBehaviour \<and>
   length (bmp_file 54 0x40000000 1 32 []) = 54 \<and>
   bmp_data_offset (bmp_file 54 0x40000000 1 32 []) +
     stride (nat (bmp_width (bmp_file 54 0x40000000 1 32 [])))
       (bmp_bpp (bmp_file 54 0x40000000 1 32 []) div 8) *
     nat \<bar>bmp_height (bmp_file 54 0x40000000 1 32 [])\<bar> = 54 + 2 ^ 32"
  using decode_wrap [of env]
  by (simp add: bmp_file_geometry bmp_file_length stride_def)

section \<open>No lower bound on the data offset\<close>

text \<open>
  Claim C10, as amended. Decode imposes no lower bound on the data offset: every input of
  at least 54 bytes that passes the magic, header size, compression and bit depth checks,
  whose height is not the least 32-bit integer, whose width is not negative or whose
  height is zero, for which width times absolute height times 4 is below \<open>2 ^ 31\<close>, whose pixel extent (data
  offset plus stride times absolute height, in exact arithmetic) does not exceed the
  input length, and whose output buffer the allocator grants, decodes successfully
  whatever the data offset is, also below 54; the pixel bytes are then read from the
  data offset on, inside the header region.
\<close>

theorem decode_data_offset_unbounded_below:
  assumes "54 \<le> length bs" and "bs ! 0 = 0x42" and "bs ! 1 = 0x4D"
    and "read_u32 bs 14 = 40" and "read_u32 bs 30 = 0"
    and "bmp_bpp bs = 24 \<or> bmp_bpp bs = 32"
    and "bmp_height bs \<noteq> - (2 ^ 31)"
    and "0 \<le> bmp_width bs \<or> bmp_height bs = 0"
    and "bmp_width bs * \<bar>bmp_height bs\<bar> * 4 < 2 ^ 31"
    and "bmp_data_offset bs + stride (nat (bmp_width bs)) (bmp_bpp bs div 8) * nat \<bar>bmp_height bs\<bar>
           \<le> length bs"
    and "can_alloc env (nat (bmp_width bs * \<bar>bmp_height bs\<bar> * 4))"
  shows "\<exists>img. bare_bmp_decode env bs = Inr img \<and>
           (\<forall>y < nat \<bar>bmp_height bs\<bar>. \<forall>x < nat (bmp_width bs).
              img_data img ! (4 * (y * nat (bmp_width bs) + x) + 2) =
                bs ! (bmp_data_offset bs +
                      src_row (bmp_height bs) y * stride (nat (bmp_width bs)) (bmp_bpp bs div 8) +
                      x * (bmp_bpp bs div 8)))"
proof -
  from decode_succeeds [OF assms]
  obtain img where dec: "bare_bmp_decode env bs = Inr img" by blast
  note D = decode_Inr(8) [OF dec]
  have "img_data img ! (4 * (y * nat (bmp_width bs) + x) + 2) =
          bs ! (bmp_data_offset bs +
                src_row (bmp_height bs) y * stride (nat (bmp_width bs)) (bmp_bpp bs div 8) +
                x * (bmp_bpp bs div 8))"
    if "y < nat \<bar>bmp_height bs\<bar>" "x < nat (bmp_width bs)" for y x
    using D [OF that] unfolding pixel_addr_def by simp
  with dec show ?thesis by blast
qed

theorem decode_data_offset_unbounded_below_witness:
  "bmp_data_offset (bmp_file 0 1 1 24 []) = 0 \<and>
   length (bmp_file 0 1 1 24 []) = 54 \<and>
   (\<exists>img. bare_bmp_decode env0 (bmp_file 0 1 1 24 []) = Inr img \<and>
      img_data img ! 2 = bmp_file 0 1 1 24 [] ! 0) \<and>
   bare_bmp_decode env0 (bmp_file 0 1 1 24 []) =
     Inr \<lparr>img_width = 1, img_height = 1, img_data = [54, 0x4D, 0x42, 255]\<rparr> \<and>
   bmp_data_offset (bmp_file 0 0xFFFFFFFF 0 24 []) = 0 \<and>
   bmp_width (bmp_file 0 0xFFFFFFFF 0 24 []) = - 1 \<and>
   bmp_height (bmp_file 0 0xFFFFFFFF 0 24 []) = 0 \<and>
   (\<exists>img. bare_bmp_decode env0 (bmp_file 0 0xFFFFFFFF 0 24 []) = Inr img)"
  using decode_data_offset_unbounded_below [of "bmp_file 0 1 1 24 []" env0] decode_offset_0
    decode_data_offset_unbounded_below [of "bmp_file 0 0xFFFFFFFF 0 24 []" env0]
    bmp_file_magic(2) [of 0 "0xFFFFFFFF" 0 24 "[]"]
  by (simp add: bmp_file_geometry bmp_file_length bmp_file_fields bmp_file_magic
      stride_def src_row_def env0_def)

theorem decode_data_offset_counterexample:
  "length (bmp_file 0 0x40000000 1 32 []) = 54 \<and>
   bmp_data_offset (bmp_file 0 0x40000000 1 32 []) = 0 \<and>
   bare_bmp_decode env0 (bmp_file 0 0x40000000 1 32 []) = Inl UndefinedBehaviour \<and>
   bare_bmp_decode \<lparr>can_alloc = (\<lambda>n. False), junk = (\<lambda>i. 0)\<rparr>
       (bmp_file 54 1 1 24 [0, 0, 255, 0]) = Inl AllocationFailure"
  using decode_wrap_offset_0 [of env0] decode_no_alloc
  by (simp add: bmp_file_geometry bmp_file_length)

section \<open>The encoded file\<close>

text \<open>
  Claim C7, as amended. For every input with positive width and height and an RGBA buffer
  of at least width times height times 4 bytes, whose output size \<open>54 + stride * height\<close>
  (with \<open>stride = ceil (width * 3 / 4) * 4\<close>, so 4 for width 1 and 12 for width 4) is
  below \<open>2 ^ 32\<close>, the range of the header's 32-bit size fields, and whose output buffer
  the allocator grants, encode returns exactly \<open>54 + stride * height\<close> bytes: a file
  header with the magic \<open>BM\<close>, that file size, reserved fields 0 and data offset 54; a
  DIB header with header size 40, the given width, the given (positive) height, planes 1,
  24 bits per pixel, compression 0, image size \<open>stride * height\<close>, both resolutions 2835
  and palette fields 0; and the pixel rows bottom-up, source row \<open>y\<close> at destination row
  \<open>height - 1 - y\<close>, as B, G, R bytes without the source alpha, every padding byte at a
  row's tail being zero.
\<close>

theorem encode_output:
  fixes img :: image
  defines "w \<equiv> nat (sint (img_width img))" and "h \<equiv> nat (sint (img_height img))"
  assumes wpos: "0 < sint (img_width img)" and hpos: "0 < sint (img_height img)"
    and srcb: "w * h * 4 \<le> length (img_data img)"
    and size: "54 + stride w 3 * h < 2 ^ 32"
    and ca: "can_alloc env (54 + stride w 3 * h)"
  shows "(\<exists>out. bare_bmp_encode env img = Inr out \<and>
     length out = 54 + stride w 3 * h \<and>
     out ! 0 = 0x42 \<and> out ! 1 = 0x4D \<and>
     file_header_at out 0 =
       \<lparr>fh_magic = 0x4D42, fh_file_size = of_nat (54 + stride w 3 * h), fh_reserved1 = 0,
        fh_reserved2 = 0, fh_data_offset = 54\<rparr> \<and>
     unat (fh_file_size (file_header_at out 0)) = 54 + stride w 3 * h \<and>
     dib_header_at out 14 =
       \<lparr>dib_header_size = 40, dib_width = word_of_int (sint (img_width img)),
        dib_height = word_of_int (sint (img_height img)),
        dib_planes = 1, dib_bpp = 24, dib_compression = 0,
        dib_image_size = of_nat (stride w 3 * h),
        dib_x_pixels_per_m = 2835, dib_y_pixels_per_m = 2835, dib_colors_used = 0,
        dib_colors_important = 0\<rparr> \<and>
     sint (dib_width (dib_header_at out 14)) = sint (img_width img) \<and>
     sint (dib_height (dib_header_at out 14)) = sint (img_height img) \<and>
     unat (dib_image_size (dib_header_at out 14)) = stride w 3 * h \<and>
     (\<forall>y < h. \<forall>x < w.
        out ! (54 + (h - 1 - y) * stride w 3 + 3 * x) = img_data img ! (4 * (y * w + x) + 2) \<and>
        out ! (54 + (h - 1 - y) * stride w 3 + 3 * x + 1) = img_data img ! (4 * (y * w + x) + 1) \<and>
        out ! (54 + (h - 1 - y) * stride w 3 + 3 * x + 2) = img_data img ! (4 * (y * w + x))) \<and>
     (\<forall>q < h. \<forall>j. 3 * w \<le> j \<and> j < stride w 3 \<longrightarrow> out ! (54 + q * stride w 3 + j) = 0)) \<and>
    stride 1 3 = 4 \<and> stride 4 3 = 12"
proof -
  define st where "st = stride w 3"
  from wpos hpos have w1: "1 \<le> w" and h1: "1 \<le> h" unfolding w_def h_def by simp_all
  have st3: "w * 3 \<le> st" unfolding st_def by (rule stride_ge)
  from size have sth: "st * h < 2 ^ 32" unfolding st_def by simp
  from h1 have "st \<le> st * h" by (cases h) simp_all
  from this sth have stlt: "st < 2 ^ 32" by (rule le_less_trans)
  from st3 stlt have "w * 3 < 2 ^ 32" by (rule le_less_trans)
  then have "int w < 2 ^ 31" by (rule third_bound)
  with wpos have wr: "- (2 ^ 31) \<le> sint (img_width img)" "sint (img_width img) < 2 ^ 31"
    unfolding w_def by simp_all
  from w1 st3 have "3 \<le> st" by simp
  then have "h * 3 \<le> st * h" by (simp add: ac_simps)
  from this sth have "h * 3 < 2 ^ 32" by (rule le_less_trans)
  then have "int h < 2 ^ 31" by (rule third_bound)
  with hpos have hr: "- (2 ^ 31) \<le> sint (img_height img)" "sint (img_height img) < 2 ^ 31"
    unfolding h_def by simp_all
  from hpos have h0: "0 \<le> sint (img_height img)" by simp
  from wpos have wh: "0 \<le> sint (img_width img) \<or> sint (img_height img) = 0" by simp
  from encode_ok [OF h0 hr(2) wh wr, folded w_def h_def, folded st_def, OF size [folded st_def] srcb
      ca [folded st_def]]
  obtain out where
    run: "bare_bmp_encode env img = Inr out" and len: "length out = 54 + st * h"
    and fh: "file_header_at out 0 =
       \<lparr>fh_magic = 0x4D42, fh_file_size = of_nat (54 + st * h), fh_reserved1 = 0,
        fh_reserved2 = 0, fh_data_offset = 54\<rparr>"
    and dh: "dib_header_at out 14 =
       \<lparr>dib_header_size = 40, dib_width = word_of_int (sint (img_width img)),
        dib_height = word_of_int (sint (img_height img)),
        dib_planes = 1, dib_bpp = 24, dib_compression = 0, dib_image_size = of_nat (st * h),
        dib_x_pixels_per_m = 2835, dib_y_pixels_per_m = 2835, dib_colors_used = 0,
        dib_colors_important = 0\<rparr>"
    and vals: "\<And>r j. r < h \<Longrightarrow> j < w \<Longrightarrow>
        out ! (54 + (h - 1 - r) * st + 3 * j) = img_data img ! (r * w * 4 + 4 * j + 2) \<and>
        out ! (54 + (h - 1 - r) * st + 3 * j + 1) = img_data img ! (r * w * 4 + 4 * j + 1) \<and>
        out ! (54 + (h - 1 - r) * st + 3 * j + 2) = img_data img ! (r * w * 4 + 4 * j)"
    and pad: "\<And>q j. q < h \<Longrightarrow> 3 * w \<le> j \<Longrightarrow> j < st \<Longrightarrow> out ! (54 + q * st + j) = 0"
    by blast
  from fh have "read_u16 out 0 = 0x4D42" unfolding file_header_at_def by simp
  then have magic: "out ! 0 = 0x42" "out ! 1 = 0x4D" unfolding read_u16_magic by simp_all
  from size have fsz: "unat (of_nat (54 + st * h) :: 32 word) = 54 + st * h"
    unfolding st_def by (rule unat_of_nat_32)
  from sth have isz: "unat (of_nat (st * h) :: 32 word) = st * h" by (rule unat_of_nat_32)
  have sw: "sint (word_of_int (sint (img_width img)) :: 32 word) = sint (img_width img)"
    using wr by (rule sint_word_of_int_32)
  have sh: "sint (word_of_int (sint (img_height img)) :: 32 word) = sint (img_height img)"
    using hr by (rule sint_word_of_int_32)
  have idx: "r * w * 4 + 4 * j = 4 * (r * w + j)" for r j by simp
  have px: "\<forall>y < h. \<forall>x < w.
        out ! (54 + (h - 1 - y) * st + 3 * x) = img_data img ! (4 * (y * w + x) + 2) \<and>
        out ! (54 + (h - 1 - y) * st + 3 * x + 1) = img_data img ! (4 * (y * w + x) + 1) \<and>
        out ! (54 + (h - 1 - y) * st + 3 * x + 2) = img_data img ! (4 * (y * w + x))"
    using vals unfolding idx by blast
  have pd: "\<forall>q < h. \<forall>j. 3 * w \<le> j \<and> j < st \<longrightarrow> out ! (54 + q * st + j) = 0"
    using pad by blast
  have "\<exists>out. bare_bmp_encode env img = Inr out \<and>
     length out = 54 + st * h \<and>
     out ! 0 = 0x42 \<and> out ! 1 = 0x4D \<and>
     file_header_at out 0 =
       \<lparr>fh_magic = 0x4D42, fh_file_size = of_nat (54 + st * h), fh_reserved1 = 0,
        fh_reserved2 = 0, fh_data_offset = 54\<rparr> \<and>
     unat (fh_file_size (file_header_at out 0)) = 54 + st * h \<and>
     dib_header_at out 14 =
       \<lparr>dib_header_size = 40, dib_width = word_of_int (sint (img_width img)),
        dib_height = word_of_int (sint (img_height img)),
        dib_planes = 1, dib_bpp = 24, dib_compression = 0,
        dib_image_size = of_nat (st * h),
        dib_x_pixels_per_m = 2835, dib_y_pixels_per_m = 2835, dib_colors_used = 0,
        dib_colors_important = 0\<rparr> \<and>
     sint (dib_width (dib_header_at out 14)) = sint (img_width img) \<and>
     sint (dib_height (dib_header_at out 14)) = sint (img_height img) \<and>
     unat (dib_image_size (dib_header_at out 14)) = st * h \<and>
     (\<forall>y < h. \<forall>x < w.
        out ! (54 + (h - 1 - y) * st + 3 * x) = img_data img ! (4 * (y * w + x) + 2) \<and>
        out ! (54 + (h - 1 - y) * st + 3 * x + 1) = img_data img ! (4 * (y * w + x) + 1) \<and>
        out ! (54 + (h - 1 - y) * st + 3 * x + 2) = img_data img ! (4 * (y * w + x))) \<and>
     (\<forall>q < h. \<forall>j. 3 * w \<le> j \<and> j < st \<longrightarrow> out ! (54 + q * st + j) = 0)"
  proof (intro exI conjI)
    show "bare_bmp_encode env img = Inr out" by (rule run)
    show "length out = 54 + st * h" by (rule len)
    show "out ! 0 = 0x42" "out ! 1 = 0x4D" by (rule magic)+
    show "file_header_at out 0 =
       \<lparr>fh_magic = 0x4D42, fh_file_size = of_nat (54 + st * h), fh_reserved1 = 0,
        fh_reserved2 = 0, fh_data_offset = 54\<rparr>" by (rule fh)
    show "unat (fh_file_size (file_header_at out 0)) = 54 + st * h" unfolding fh using fsz by simp
    show "dib_header_at out 14 =
       \<lparr>dib_header_size = 40, dib_width = word_of_int (sint (img_width img)),
        dib_height = word_of_int (sint (img_height img)),
        dib_planes = 1, dib_bpp = 24, dib_compression = 0,
        dib_image_size = of_nat (st * h),
        dib_x_pixels_per_m = 2835, dib_y_pixels_per_m = 2835, dib_colors_used = 0,
        dib_colors_important = 0\<rparr>" by (rule dh)
    show "sint (dib_width (dib_header_at out 14)) = sint (img_width img)" unfolding dh using sw by simp
    show "sint (dib_height (dib_header_at out 14)) = sint (img_height img)" unfolding dh using sh by simp
    show "unat (dib_image_size (dib_header_at out 14)) = st * h" unfolding dh using isz by simp
    show "\<forall>y < h. \<forall>x < w.
        out ! (54 + (h - 1 - y) * st + 3 * x) = img_data img ! (4 * (y * w + x) + 2) \<and>
        out ! (54 + (h - 1 - y) * st + 3 * x + 1) = img_data img ! (4 * (y * w + x) + 1) \<and>
        out ! (54 + (h - 1 - y) * st + 3 * x + 2) = img_data img ! (4 * (y * w + x))" by (rule px)
    show "\<forall>q < h. \<forall>j. 3 * w \<le> j \<and> j < st \<longrightarrow> out ! (54 + q * st + j) = 0" by (rule pd)
  qed
  moreover have "stride 1 3 = 4" "stride 4 3 = 12" by (simp_all add: stride_def)
  ultimately show ?thesis unfolding st_def by blast
qed


theorem encode_output_witness:
  "bare_bmp_encode env0 \<lparr>img_width = 1, img_height = 1, img_data = [255, 0, 0, 255]\<rparr> =
     Inr [0x42, 0x4D, 58, 0, 0, 0, 0, 0, 0, 0, 54, 0, 0, 0,
          40, 0, 0, 0, 1, 0, 0, 0, 1, 0, 0, 0, 1, 0, 24, 0, 0, 0, 0, 0, 4, 0, 0, 0,
          0x13, 0x0B, 0, 0, 0x13, 0x0B, 0, 0, 0, 0, 0, 0, 0, 0, 0, 0,
          0, 0, 255, 0] \<and>
   54 + stride 1 3 * 1 = 58 \<and>
   (\<exists>out. bare_bmp_encode env0 \<lparr>img_width = 1, img_height = 1, img_data = [255, 0, 0, 255]\<rparr> =
      Inr out \<and> length out = 58 \<and> out ! 54 = 0 \<and> out ! 56 = 255 \<and> out ! 57 = 0)"
  using encode_output [of "\<lparr>img_width = 1, img_height = 1, img_data = [255, 0, 0, 255]\<rparr>" env0]
    encode_1x1
  by (simp add: env0_def stride_def)

theorem encode_output_counterexample:
  "0 < sint (65536 :: 64 word) \<and>
   length (replicate 17179869184 (0 :: byte)) = 65536 * 65536 * 4 \<and>
   bare_bmp_encode env0
     \<lparr>img_width = 65536, img_height = 65536, img_data = replicate 17179869184 0\<rparr> =
   Inl UndefinedBehaviour"
  using encode_huge by simp

section \<open>The buffer-length check of the encoder overflows\<close>

text \<open>
  Claim C8 says that encode fails with \<open>BufferTooSmall\<close> whenever the RGBA buffer is
  shorter than width times height times 4, and that every validation failure is reported
  before any allocation. The source computes \<^verbatim>\<open>width * height * 4\<close> in \<^verbatim>\<open>int64_t\<close>: for
  width and height \<open>2 ^ 31\<close> and an empty buffer the product is \<open>2 ^ 64\<close>, which overflows,
  and the run leaves defined behaviour instead of failing with \<open>BufferTooSmall\<close>. Where
  the product does not overflow the check is right (\<open>encode_buffer_too_small\<close>), and no
  validation failure of either operation depends on the allocator
  (\<open>decode_validation_ignores_allocator\<close>, \<open>encode_validation_ignores_allocator\<close>).
\<close>

theorem encode_length_check_overflows:
  "bare_bmp_encode env \<lparr>img_width = 0x80000000, img_height = 0x80000000, img_data = []\<rparr> =
     Inl UndefinedBehaviour \<and>
   int (length ([] :: byte list)) <
     sint (0x80000000 :: 64 word) * sint (0x80000000 :: 64 word) * 4"
  using encode_overflow [of env] by simp

section \<open>The round trip\<close>

text \<open>
  Claim C1, as amended. For every BMP byte sequence whose height field is not the least
  32-bit integer, for which width times absolute height times 4 lies in the range of
  \<^verbatim>\<open>int32_t\<close>, and on which decode succeeds: if the allocator grants the encoder its
  output buffer of 54 + stride times height bytes and the second decoder its buffer of
  width times height times 4 bytes, then encoding the decoded image and decoding the
  encoded file both succeed and yield the same width, the same height and the same R, G
  and B bytes as the first decode. The round trip is lossy only in the alpha channel,
  which the 24-bit file does not carry: every alpha byte of the second decode is 255, so
  for a 24-bit source, whose first decode already has alpha 255 everywhere, the two RGBA
  buffers are identical. The encoded file is 24-bit with a non-negative height field
  (bottom-up), whatever the bit depth and row order of the original.

  The claim as written does not hold when an allocation of the round trip fails: under
  an allocator that grants four bytes and no more, the 1 by 1 file decodes and the
  encoder, which needs 58 bytes, fails with \<open>AllocationFailure\<close>. The two conditions on
  the fields leave out the inputs on which \<^verbatim>\<open>-height\<close> or \<^verbatim>\<open>width * abs_height * 4\<close>
  overflows \<^verbatim>\<open>int32_t\<close> in the first decode: there the behaviour is undefined, and what
  a binding in which the overflow wraps returns does not survive the round trip.
\<close>

theorem decode_encode_decode:
  assumes dec: "bare_bmp_decode e1 bs = Inr img"
    and "bmp_height bs \<noteq> - (2 ^ 31)"
    and "- (2 ^ 31) \<le> bmp_width bs * \<bar>bmp_height bs\<bar> * 4"
    and "bmp_width bs * \<bar>bmp_height bs\<bar> * 4 < 2 ^ 31"
    and ca2: "can_alloc e2 (54 + stride (nat (sint (img_width img))) 3 * nat (sint (img_height img)))"
    and ca3: "can_alloc e3 (length (img_data img))"
  shows "\<exists>bmp img'. bare_bmp_encode e2 img = Inr bmp \<and> bare_bmp_decode e3 bmp = Inr img' \<and>
     img_width img' = img_width img \<and> img_height img' = img_height img \<and>
     img_data img' = opaque (img_data img) \<and>
     (bmp_bpp bs = 24 \<longrightarrow> img_data img' = img_data img) \<and>
     bmp_bpp bmp = 24 \<and> 0 \<le> bmp_height bmp"
proof -
  note S = decoded_image_shape [OF dec]
  from encode_then_decode [OF S(1-7) ca2 ca3 [unfolded S(6)]]
  obtain bmp img' where R: "bare_bmp_encode e2 img = Inr bmp" "bare_bmp_decode e3 bmp = Inr img'"
    "img_width img' = img_width img" "img_height img' = img_height img"
    "img_data img' = opaque (img_data img)" "bmp_bpp bmp = 24"
    "bmp_height bmp = sint (img_height img)"
    by blast
  from R(7) S(1) have bu: "0 \<le> bmp_height bmp" by simp
  have "bmp_bpp bs = 24 \<longrightarrow> img_data img' = img_data img"
    unfolding R(5) using decoded_24_opaque [OF dec] by simp
  with R(1-6) bu show ?thesis by blast
qed

theorem decode_encode_decode_witness:
  "bare_bmp_decode env0 (bmp_file 54 1 1 32 [10, 20, 30, 128]) =
     Inr \<lparr>img_width = 1, img_height = 1, img_data = [30, 20, 10, 128]\<rparr> \<and>
   (\<exists>bmp img'.
      bare_bmp_encode env0 \<lparr>img_width = 1, img_height = 1, img_data = [30, 20, 10, 128]\<rparr> = Inr bmp \<and>
      bare_bmp_decode env0 bmp = Inr img' \<and>
      img_width img' = 1 \<and> img_height img' = 1 \<and> img_data img' = [30, 20, 10, 255] \<and>
      bmp_bpp bmp = 24 \<and> 0 \<le> bmp_height bmp) \<and>
   bare_bmp_decode env0 (bmp_file 54 2 (- 2) 24 [1, 2, 3, 4, 5, 6, 0, 0, 7, 8, 9, 10, 11, 12, 0, 0]) =
     Inr \<lparr>img_width = 2, img_height = 2,
          img_data = [3, 2, 1, 255, 6, 5, 4, 255, 9, 8, 7, 255, 12, 11, 10, 255]\<rparr> \<and>
   (\<exists>bmp img'.
      bare_bmp_encode env0 \<lparr>img_width = 2, img_height = 2,
          img_data = [3, 2, 1, 255, 6, 5, 4, 255, 9, 8, 7, 255, 12, 11, 10, 255]\<rparr> = Inr bmp \<and>
      bare_bmp_decode env0 bmp = Inr img' \<and>
      img_width img' = 2 \<and> img_height img' = 2 \<and>
      img_data img' = [3, 2, 1, 255, 6, 5, 4, 255, 9, 8, 7, 255, 12, 11, 10, 255] \<and>
      bmp_bpp bmp = 24 \<and> 0 \<le> bmp_height bmp)"
  using decode_encode_decode [OF decode_1x1_32, of env0 env0]
    decode_encode_decode [OF decode_2x2_top_down, of env0 env0]
    decode_1x1_32 decode_2x2_top_down
  by (simp add: env0_def bmp_file_geometry)

theorem decode_encode_decode_counterexample:
  "bare_bmp_decode \<lparr>can_alloc = (\<lambda>n. n \<le> 4), junk = (\<lambda>i. 0)\<rparr> (bmp_file 54 1 1 24 [0, 0, 255, 0]) =
     Inr \<lparr>img_width = 1, img_height = 1, img_data = [255, 0, 0, 255]\<rparr> \<and>
   bare_bmp_encode \<lparr>can_alloc = (\<lambda>n. n \<le> 4), junk = (\<lambda>i. 0)\<rparr>
     \<lparr>img_width = 1, img_height = 1, img_data = [255, 0, 0, 255]\<rparr> = Inl AllocationFailure"
  using decode_1x1_small_allocator encode_1x1_small_allocator by simp

section \<open>Animated encoding always fails\<close>

text \<open>
  Claim C9. The animated-encode operation fails with the fixed \<open>NotSupported\<close> error on
  every call, whatever its arguments, and produces no output.
\<close>

theorem encode_animated_not_supported:
  "bare_bmp_encode_animated argv = Inl NotSupported"
  by (simp add: bare_bmp_encode_animated_def)

end
